theory Spec2Isabelle
  imports Complex_Main "HOL-Library.AList"
begin

section \<open>Common conventions\<close>

text \<open>
  The repository is Python on top of numpy. Python floats are idealised as \<^typ>\<open>real\<close>
  (no rounding, no NaN, no overflow); Python integers are \<^typ>\<open>int\<close> or \<^typ>\<open>nat\<close>.
  Every exception the modelled code can raise is a value of \<open>error\<close>.
\<close>

datatype error =
    UnknownCriterion string  \<comment> \<open>the \<open>ValueError\<close> that \<open>Decision.fit\<close> raises itself\<close>
  | EmptyReduction           \<comment> \<open>numpy's \<open>ValueError\<close> for max/min/argmax/argmin of nothing\<close>
  | ShapeMismatch            \<comment> \<open>numpy's \<open>ValueError\<close> of \<open>@\<close> on mismatched shapes\<close>
  | AttributeError string    \<comment> \<open>reading an attribute that was never assigned\<close>
  | IndexError
  | KeyError
  | ZeroDivisionError
  | TypeError                \<comment> \<open>e.g. \<open>str + float\<close>\<close>
  | RateValueError           \<comment> \<open>the \<open>ValueError\<close> that \<open>BCRatio.__init__\<close> raises\<close>
  | ComplexPower             \<comment> \<open>negative float to a fractional power: Python continues
                                 with a complex number, the embedding stops here\<close>

definition bindE :: "error + 'a \<Rightarrow> ('a \<Rightarrow> error + 'b) \<Rightarrow> error + 'b" where
  "bindE m f = (case m of Inl e \<Rightarrow> Inl e | Inr x \<Rightarrow> f x)"

fun map_err :: "('a \<Rightarrow> error + 'b) \<Rightarrow> 'a list \<Rightarrow> error + 'b list" where
  "map_err f [] = Inr []"
| "map_err f (x # xs) =
     (case f x of
        Inl e \<Rightarrow> Inl e
      | Inr y \<Rightarrow> (case map_err f xs of Inl e \<Rightarrow> Inl e | Inr ys \<Rightarrow> Inr (y # ys)))"

section \<open>numpy arrays as far as \<open>Decision\<close> uses them\<close>

text \<open>
  A two-dimensional \<open>ndarray\<close> of shape \<open>(m, n)\<close>: \<open>m\<close> rows, each of \<open>ncols = n\<close>
  entries. The number of columns is kept apart from the rows because an array with no row
  still has one.
\<close>

record ndarray2 =
  ncols :: nat
  rows :: "real list list"

definition wf_ndarray2 :: "ndarray2 \<Rightarrow> bool" where
  "wf_ndarray2 a = list_all (\<lambda>r. length r = ncols a) (rows a)"

text \<open>\<open>v.max()\<close> and \<open>v.min()\<close> of a one-dimensional array.\<close>

definition np_max :: "real list \<Rightarrow> error + real" where
  "np_max v = (case v of [] \<Rightarrow> Inl EmptyReduction | x # xs \<Rightarrow> Inr (fold max xs x))"

definition np_min :: "real list \<Rightarrow> error + real" where
  "np_min v = (case v of [] \<Rightarrow> Inl EmptyReduction | x # xs \<Rightarrow> Inr (fold min xs x))"

text \<open>The first index at which \<open>x\<close> occurs in \<open>v\<close> (\<open>length v\<close> if it does not).\<close>

fun first_index :: "real list \<Rightarrow> real \<Rightarrow> nat" where
  "first_index [] x = 0"
| "first_index (y # ys) x = (if y = x then 0 else Suc (first_index ys x))"

text \<open>\<open>v.argmax()\<close> and \<open>v.argmin()\<close>: the first index of the extreme value.\<close>

definition np_argmax :: "real list \<Rightarrow> error + nat" where
  "np_argmax v = bindE (np_max v) (\<lambda>mx. Inr (first_index v mx))"

definition np_argmin :: "real list \<Rightarrow> error + nat" where
  "np_argmin v = bindE (np_min v) (\<lambda>mn. Inr (first_index v mn))"

text \<open>\<open>a.max(axis = 1)\<close> and \<open>a.min(axis = 1)\<close>: one value per row; numpy refuses to
  reduce along an axis of length zero.\<close>

definition max_axis1 :: "ndarray2 \<Rightarrow> error + real list" where
  "max_axis1 a = (if ncols a = 0 then Inl EmptyReduction else map_err np_max (rows a))"

definition min_axis1 :: "ndarray2 \<Rightarrow> error + real list" where
  "min_axis1 a = (if ncols a = 0 then Inl EmptyReduction else map_err np_min (rows a))"

text \<open>\<open>a[:, j]\<close>: column \<open>j\<close>.\<close>

definition column :: "ndarray2 \<Rightarrow> nat \<Rightarrow> error + real list" where
  "column a j = (if j < ncols a then Inr (map (\<lambda>r. r ! j) (rows a)) else Inl IndexError)"

text \<open>\<open>a.max(axis = 0)\<close>: one value per column.\<close>

definition max_axis0 :: "ndarray2 \<Rightarrow> error + real list" where
  "max_axis0 a =
     (if rows a = [] then Inl EmptyReduction
      else map_err (\<lambda>j. bindE (column a j) np_max) [0 ..< ncols a])"

text \<open>\<open>v - a\<close> for \<open>v\<close> of shape \<open>(n,)\<close> and \<open>a\<close> of shape \<open>(m, n)\<close>: \<open>v\<close> is broadcast
  over the rows.\<close>

definition sub_broadcast :: "real list \<Rightarrow> ndarray2 \<Rightarrow> ndarray2" where
  "sub_broadcast v a = a\<lparr>rows := map (\<lambda>r. map2 (-) v r) (rows a)\<rparr>"

text \<open>\<open>a @ p\<close> for \<open>a\<close> of shape \<open>(m, n)\<close> and the column vector \<open>p\<close> of shape \<open>(n, 1)\<close>;
  the result has shape \<open>(m, 1)\<close> and is kept as the list of its \<open>m\<close> entries.\<close>

definition dot :: "real list \<Rightarrow> real list \<Rightarrow> real" where
  "dot r p = sum_list (map2 (*) r p)"

definition matmul :: "ndarray2 \<Rightarrow> real list \<Rightarrow> error + real list" where
  "matmul a p =
     (if ncols a = length p then Inr (map (\<lambda>r. dot r p) (rows a)) else Inl ShapeMismatch)"

section \<open>\<open>Decision.py\<close>: decision making under uncertainty\<close>

datatype label = IntLabel nat | StrLabel string

text \<open>
  The object state. An attribute that \<open>__init__\<close> does not assign is \<open>None\<close> here until
  \<open>fit\<close> assigns it; reading it while \<open>None\<close> is Python's \<open>AttributeError\<close>.
  \<open>prob\<close> is the \<open>(n, 1)\<close> column that \<open>np.reshape(self.prob, (-1, 1))\<close> yields, kept as
  the list of its entries. The attributes \<open>maxmax_dec_\<close>, \<open>results_\<close> and so on are
  written without their trailing underscore, and the regret matrix \<open>regret_\<close> is
  \<open>regret_mat\<close> (\<open>regret\<close> is the attribute \<open>__init__\<close> sets to \<open>None\<close>).
\<close>

record Decision =
  crit :: "string list"
  alts :: "label list"
  states :: "label list"
  prob :: "real list"
  payoff :: ndarray2
  regret :: "ndarray2 option"
  maxmax_dec :: "label option"
  maxmax_pf :: "real option"
  maxmin_dec :: "label option"
  maxmin_pf :: "real option"
  regret_mat :: "ndarray2 option"
  regret_dec :: "label option"
  regret_pf :: "real option"
  mle_dec :: "label option"
  mle_pf :: "real option"
  ev_dec :: "label option"
  ev_pf :: "real option"
  results :: "string \<rightharpoonup> label \<times> real"

text \<open>\<open>_read_payoff\<close> for an \<open>ndarray\<close>: the last row is the probabilities, the rows
  before it the payoffs, and the labels are the indices. (\<open>payoff[-1, :]\<close> of an array
  with no row is an \<open>IndexError\<close>.) The other three input shapes go through pandas and
  enter the model already split into \<open>(alts, states, prob, payoff)\<close>.\<close>

definition read_payoff_ndarray ::
  "ndarray2 \<Rightarrow> error + (label list \<times> label list \<times> real list \<times> ndarray2)" where
  "read_payoff_ndarray a =
     (if rows a = [] then Inl IndexError
      else let p = last (rows a); pf = a\<lparr>rows := butlast (rows a)\<rparr>
           in Inr (map IntLabel [0 ..< length (rows pf)], map IntLabel [0 ..< ncols pf], p, pf))"

text \<open>\<open>__init__\<close>, after \<open>_read_payoff\<close> has returned \<open>(alts, states, prob, payoff)\<close>.\<close>

definition Decision_init ::
  "label list \<times> label list \<times> real list \<times> ndarray2 \<Rightarrow> string list \<Rightarrow> Decision" where
  "Decision_init t criteria =
     (case t of (al, st, pr, pf) \<Rightarrow>
        \<lparr>crit = criteria, alts = al, states = st, prob = pr, payoff = pf, regret = None,
         maxmax_dec = None, maxmax_pf = None, maxmin_dec = None, maxmin_pf = None,
         regret_mat = None, regret_dec = None, regret_pf = None,
         mle_dec = None, mle_pf = None, ev_dec = None, ev_pf = None,
         results = Map.empty\<rparr>)"

text \<open>\<open>self.alts[i]\<close>.\<close>

definition alt_at :: "Decision \<Rightarrow> nat \<Rightarrow> error + label" where
  "alt_at s i = (if i < length (alts s) then Inr (alts s ! i) else Inl IndexError)"

definition build_dict :: "string \<Rightarrow> label \<Rightarrow> real \<Rightarrow> Decision \<Rightarrow> Decision" where
  "build_dict criteria decision pf s = s\<lparr>results := (results s)(criteria \<mapsto> (decision, pf))\<rparr>"

text \<open>
  One branch of \<open>fit\<close> is three statements: assign the decision, assign the payoff, store
  the pair. Each function below returns the exception raised, if any, with the object as
  the exception leaves it.
\<close>

definition fit_maxmax :: "Decision \<Rightarrow> error option \<times> Decision" where
  "fit_maxmax s =
     (case bindE (bindE (max_axis1 (payoff s)) np_argmax) (alt_at s) of
        Inl e \<Rightarrow> (Some e, s)
      | Inr d \<Rightarrow>
          let s1 = s\<lparr>maxmax_dec := Some d\<rparr> in
          (case bindE (max_axis1 (payoff s1)) np_max of
             Inl e \<Rightarrow> (Some e, s1)
           | Inr p \<Rightarrow> (None, build_dict ''maxmax'' d p (s1\<lparr>maxmax_pf := Some p\<rparr>))))"

definition fit_maxmin :: "Decision \<Rightarrow> error option \<times> Decision" where
  "fit_maxmin s =
     (case bindE (bindE (min_axis1 (payoff s)) np_argmax) (alt_at s) of
        Inl e \<Rightarrow> (Some e, s)
      | Inr d \<Rightarrow>
          let s1 = s\<lparr>maxmin_dec := Some d\<rparr> in
          (case bindE (min_axis1 (payoff s1)) np_max of
             Inl e \<Rightarrow> (Some e, s1)
           | Inr p \<Rightarrow> (None, build_dict ''maxmin'' d p (s1\<lparr>maxmin_pf := Some p\<rparr>))))"

definition fit_regret :: "Decision \<Rightarrow> error option \<times> Decision" where
  "fit_regret s =
     (case max_axis0 (payoff s) of
        Inl e \<Rightarrow> (Some e, s)
      | Inr cm \<Rightarrow>
          let rg = sub_broadcast cm (payoff s); s1 = s\<lparr>regret_mat := Some rg\<rparr> in
          (case bindE (bindE (max_axis1 rg) np_argmin) (alt_at s1) of
             Inl e \<Rightarrow> (Some e, s1)
           | Inr d \<Rightarrow>
               let s2 = s1\<lparr>regret_dec := Some d\<rparr> in
               (case bindE (max_axis1 rg) np_min of
                  Inl e \<Rightarrow> (Some e, s2)
                | Inr p \<Rightarrow> (None, build_dict ''regret'' d p (s2\<lparr>regret_pf := Some p\<rparr>)))))"

definition fit_maxlik :: "Decision \<Rightarrow> error option \<times> Decision" where
  "fit_maxlik s =
     (case bindE (bindE (bindE (np_argmax (prob s)) (column (payoff s))) np_argmax) (alt_at s) of
        Inl e \<Rightarrow> (Some e, s)
      | Inr d \<Rightarrow>
          let s1 = s\<lparr>mle_dec := Some d\<rparr> in
          (case bindE (bindE (np_argmax (prob s1)) (column (payoff s1))) np_max of
             Inl e \<Rightarrow> (Some e, s1)
           | Inr p \<Rightarrow> (None, build_dict ''maxlik'' d p (s1\<lparr>mle_pf := Some p\<rparr>))))"

text \<open>The \<open>ev\<close> branch stores \<open>self.mle_pf_\<close>, the attribute of the \<open>maxlik\<close> branch, not
  the \<open>self.ev_pf_\<close> it has just assigned.\<close>

definition fit_ev :: "Decision \<Rightarrow> error option \<times> Decision" where
  "fit_ev s =
     (case matmul (payoff s) (prob s) of
        Inl e \<Rightarrow> (Some e, s)
      | Inr dotprod \<Rightarrow>
          (case bindE (np_argmax dotprod) (alt_at s) of
             Inl e \<Rightarrow> (Some e, s)
           | Inr d \<Rightarrow>
               let s1 = s\<lparr>ev_dec := Some d\<rparr> in
               (case np_max dotprod of
                  Inl e \<Rightarrow> (Some e, s1)
                | Inr p \<Rightarrow>
                    let s2 = s1\<lparr>ev_pf := Some p\<rparr> in
                    (case mle_pf s2 of
                       None \<Rightarrow> (Some (AttributeError ''mle_pf_''), s2)
                     | Some q \<Rightarrow> (None, build_dict ''ev'' d q s2)))))"

definition fit_criterion :: "string \<Rightarrow> Decision \<Rightarrow> error option \<times> Decision" where
  "fit_criterion criterion s =
     (if criterion = ''maxmax'' then fit_maxmax s
      else if criterion = ''maxmin'' then fit_maxmin s
      else if criterion = ''regret'' then fit_regret s
      else if criterion = ''maxlik'' then fit_maxlik s
      else if criterion = ''ev'' then fit_ev s
      else (Some (UnknownCriterion criterion), s))"

text \<open>The \<open>for\<close> loop of \<open>fit\<close>: an exception ends it and leaves the object as it is.\<close>

fun fit_loop :: "string list \<Rightarrow> Decision \<Rightarrow> error option \<times> Decision" where
  "fit_loop [] s = (None, s)"
| "fit_loop (c # cs) s =
     (case fit_criterion c s of
        (Some e, s') \<Rightarrow> (Some e, s')
      | (None, s') \<Rightarrow> fit_loop cs s')"

definition fit :: "Decision \<Rightarrow> error option \<times> Decision" where
  "fit s = fit_loop (crit s) s"

text \<open>The fixture of \<open>tests/dec_test.py\<close>, with the labels of its labelled variants.\<close>

definition fixture_payoff :: ndarray2 where
  "fixture_payoff =
     \<lparr>ncols = 3,
      rows = [[125, 175, 225], [200, 300, 400], [225, 375, 525], [200, 400, 600], [125, 375, 625]]\<rparr>"

definition fixture_prob :: "real list" where
  "fixture_prob = [35 / 100, 25 / 100, 4 / 10]"

definition fixture_table :: "label list \<times> label list \<times> real list \<times> ndarray2" where
  "fixture_table =
     (map StrLabel [''$5'', ''$6'', ''$7'', ''$8'', ''$9''],
      map StrLabel [''Domino $6'', ''Domino $7'', ''Domino $8''],
      fixture_prob, fixture_payoff)"

definition all_criteria :: "string list" where
  "all_criteria = [''maxmax'', ''maxmin'', ''regret'', ''maxlik'', ''ev'']"

text \<open>A non-empty array all of whose rows have \<open>ncols\<close> entries, and an object whose
  labels and probabilities fit its payoff array.\<close>

definition array_ok :: "ndarray2 \<Rightarrow> bool" where
  "array_ok a = (wf_ndarray2 a \<and> 0 < ncols a \<and> rows a \<noteq> [])"

definition table_ok :: "Decision \<Rightarrow> bool" where
  "table_ok s =
     (array_ok (payoff s) \<and> length (alts s) = length (rows (payoff s)) \<and>
      length (prob s) = ncols (payoff s))"

section \<open>\<open>EnggEcon.py\<close>: engineering economy\<close>

datatype convention = End | Mid

record equivalence =
  conv :: convention
  fract :: real

definition equivalence_init :: "convention \<Rightarrow> bool \<Rightarrow> equivalence" where
  "equivalence_init convention fractional =
     \<lparr>conv = convention, fract = (if fractional then 1 else 100)\<rparr>"

text \<open>
  Python's \<open>x ** e\<close> for a float \<open>x\<close>. An integral exponent is repeated multiplication, a
  negative one its reciprocal, and zero to a negative power is a \<open>ZeroDivisionError\<close>; a
  negative base with a fractional exponent leaves the reals.
\<close>

definition py_pow :: "real \<Rightarrow> real \<Rightarrow> error + real" where
  "py_pow x e =
     (if e = of_int \<lfloor>e\<rfloor> then
        (if 0 \<le> e then Inr (x ^ nat \<lfloor>e\<rfloor>)
         else if x = 0 then Inl ZeroDivisionError
         else Inr (1 / x ^ nat (- \<lfloor>e\<rfloor>)))
      else if 0 < x then Inr (x powr e)
      else if x = 0 then (if 0 < e then Inr 0 else Inl ZeroDivisionError)
      else Inl ComplexPower)"

definition PgivenF :: "equivalence \<Rightarrow> real \<Rightarrow> real \<Rightarrow> error + real" where
  "PgivenF q i n =
     (case conv q of
        End \<Rightarrow> py_pow (1 + i / fract q) (- n)
      | Mid \<Rightarrow> py_pow (1 + i / fract q) (- (n - 1 / 2)))"

record compareAlt =
  cf :: "real list"
  eq :: equivalence

definition compareAlt_init :: "real list \<Rightarrow> convention \<Rightarrow> bool \<Rightarrow> compareAlt" where
  "compareAlt_init cash_flow convention fractional =
     \<lparr>cf = cash_flow, eq = equivalence_init convention fractional\<rparr>"

text \<open>\<open>npv\<close>: the loop \<open>pv += flow * PgivenF(interest, period)\<close> over \<open>enumerate(self.cf)\<close>.\<close>

fun npv_loop :: "equivalence \<Rightarrow> real \<Rightarrow> real \<Rightarrow> (nat \<times> real) list \<Rightarrow> error + real" where
  "npv_loop q interest pv [] = Inr pv"
| "npv_loop q interest pv ((period, flow) # rest) =
     (case PgivenF q interest (real period) of
        Inl e \<Rightarrow> Inl e
      | Inr f \<Rightarrow> npv_loop q interest (pv + flow * f) rest)"

definition npv :: "compareAlt \<Rightarrow> real \<Rightarrow> error + real" where
  "npv c interest = npv_loop (eq c) interest 0 (enumerate 0 (cf c))"

text \<open>\<open>_ppv\<close>: the list of discounted terms.\<close>

definition ppv :: "compareAlt \<Rightarrow> real list \<Rightarrow> real \<Rightarrow> error + real list" where
  "ppv c flows interest =
     map_err (\<lambda>(period, flow). bindE (PgivenF (eq c) interest (real period)) (\<lambda>f. Inr (flow * f)))
       (enumerate 0 flows)"

text \<open>\<open>_dnpv\<close>: \<open>-1/(interest+1) * sum([period*x for x, period in enumerate(ppv)])\<close>; the
  names are swapped in the source, the product is index times term.\<close>

definition dnpv :: "real list \<Rightarrow> real \<Rightarrow> error + real" where
  "dnpv pv interest =
     (if interest + 1 = 0 then Inl ZeroDivisionError
      else Inr (- 1 / (interest + 1) * sum_list (map (\<lambda>(x, period). period * real x) (enumerate 0 pv))))"

text \<open>
  The \<open>while\<close> loop of \<open>irr\<close>. \<open>itr\<close> counts the iterations, \<open>r\<close> is the current rate and
  \<open>v\<close> the variable \<open>npv\<close>. Past the cap the source evaluates
  \<open>"Failed to converge.Last irr = " + r\<close>, a \<open>str\<close> plus a \<open>float\<close>: a \<open>TypeError\<close>.
  The printing under \<open>verbose\<close> and \<open>itr_to_conv\<close> is left out.
\<close>

function irr_loop :: "compareAlt \<Rightarrow> real \<Rightarrow> real \<Rightarrow> nat \<Rightarrow> real \<Rightarrow> real \<Rightarrow> error + real" where
  "irr_loop c max_iter threshold itr r v =
     (if \<bar>v\<bar> > threshold then
        (if real (Suc itr) > max_iter then Inl TypeError
         else
           (case ppv c (cf c) r of
              Inl e \<Rightarrow> Inl e
            | Inr pv \<Rightarrow>
                (case dnpv pv (r / fract (eq c)) of
                   Inl e \<Rightarrow> Inl e
                 | Inr d \<Rightarrow>
                     (if d = 0 then Inl ZeroDivisionError
                      else irr_loop c max_iter threshold (Suc itr) (r - sum_list pv / d)
                             (sum_list pv)))))
      else Inr r)"
  by pat_completeness auto
termination
proof (relation "measure (\<lambda>(c, max_iter, threshold, itr, r, v). nat \<lfloor>max_iter\<rfloor> - itr)")
  show "wf (measure (\<lambda>(c, max_iter, threshold, itr, r, v). nat \<lfloor>max_iter\<rfloor> - itr))"
    by simp
next
  fix c :: compareAlt and max_iter threshold r v :: real and itr :: nat
  assume "\<not> max_iter < real (Suc itr)"
  then have "int (Suc itr) \<le> \<lfloor>max_iter\<rfloor>" by (simp add: le_floor_iff)
  then have "itr < nat \<lfloor>max_iter\<rfloor>" by linarith
  then show "((c, max_iter, threshold, Suc itr, r - sum_list pv / d, sum_list pv),
       (c, max_iter, threshold, itr, r, v))
      \<in> measure (\<lambda>(c, max_iter, threshold, itr, r, v). nat \<lfloor>max_iter\<rfloor> - itr)" for pv d
    by simp
qed

declare irr_loop.simps [simp del]

text \<open>The start of \<open>irr\<close>: the guess, and the present worth at the guess.\<close>

definition irr_guess :: "compareAlt \<Rightarrow> real option \<Rightarrow> error + real" where
  "irr_guess c guess =
     (case guess of
        Some g \<Rightarrow> Inr g
      | None \<Rightarrow>
          (case cf c of
             [] \<Rightarrow> Inl IndexError
           | c0 # rest \<Rightarrow>
               if sum_list rest = 0 then Inl ZeroDivisionError
               else Inr (\<bar>c0\<bar> / sum_list rest * fract (eq c))))"

definition irr :: "compareAlt \<Rightarrow> real option \<Rightarrow> real \<Rightarrow> real \<Rightarrow> error + real" where
  "irr c guess max_iter threshold =
     bindE (irr_guess c guess) (\<lambda>r.
       bindE (ppv c (cf c) r) (\<lambda>pv. irr_loop c max_iter threshold 0 r (sum_list pv)))"

text \<open>
  \<open>BCRatio\<close>. \<open>rate and ben_rate\<close> tests truthiness: \<open>None\<close> and \<open>0\<close> are both false.
  \<open>__init__\<close> returns the warnings it has issued and either the exception it raises or the
  object; \<open>_benefits\<close> and \<open>_costs\<close> are \<open>benefits\<close> and \<open>costs\<close>.
\<close>

datatype warning = RateOverrideWarning

definition truthy :: "real option \<Rightarrow> bool" where
  "truthy x = (case x of None \<Rightarrow> False | Some v \<Rightarrow> v \<noteq> 0)"

record BCRatio =
  benefit :: "real list"
  cost :: "real list"
  ben_rate :: "real option"
  cost_rate :: "real option"
  benefits :: compareAlt
  costs :: compareAlt

definition BCRatio_init ::
  "real list \<Rightarrow> real list \<Rightarrow> real option \<Rightarrow> real option \<Rightarrow> real option \<Rightarrow> convention \<Rightarrow> bool
     \<Rightarrow> warning list \<times> (error + BCRatio)" where
  "BCRatio_init ben cst rate b_rate c_rate convention fractional =
     (let (ws, br, cr) =
        (if (truthy rate \<and> truthy b_rate) \<or> (truthy rate \<and> truthy c_rate)
           then ([RateOverrideWarning], rate, rate)
         else if truthy rate then ([], rate, rate)
         else ([], b_rate, c_rate))
      in if (truthy b_rate \<and> \<not> truthy c_rate) \<or> (truthy c_rate \<and> \<not> truthy b_rate)
           then (ws, Inl RateValueError)
         else (ws, Inr \<lparr>benefit = ben, cost = cst, ben_rate = br, cost_rate = cr,
                 benefits = compareAlt_init ben convention fractional,
                 costs = compareAlt_init cst convention fractional\<rparr>))"

text \<open>\<open>bcr\<close>: a rate that is \<open>None\<close> reaches \<open>None / 1.0\<close> in \<open>PgivenF\<close>, a \<open>TypeError\<close>.\<close>

definition bcr :: "BCRatio \<Rightarrow> error + real" where
  "bcr b =
     (case ben_rate b of
        None \<Rightarrow> Inl TypeError
      | Some br \<Rightarrow>
          bindE (npv (benefits b) br) (\<lambda>pb.
            (case cost_rate b of
               None \<Rightarrow> Inl TypeError
             | Some cr \<Rightarrow>
                 bindE (npv (costs b) cr) (\<lambda>pc.
                   if pc = 0 then Inl ZeroDivisionError else Inr (pb / pc)))))"

text \<open>\<open>r\<close> is the Newton update that one pass of the loop of \<open>irr\<close> makes from \<open>r'\<close>.\<close>

definition newton_step :: "compareAlt \<Rightarrow> real \<Rightarrow> real \<Rightarrow> bool" where
  "newton_step c r' r =
     (\<exists>pv d. ppv c (cf c) r' = Inr pv \<and> dnpv pv (r' / fract (eq c)) = Inr d \<and> d \<noteq> 0 \<and>
        r = r' - sum_list pv / d)"

section \<open>\<open>utils.py\<close>: the common-horizon reconciler\<close>

text \<open>
  \<open>cfCommon\<close> works on objects that the caller shares with it, so the model has a store.
  A list object sits at an address of \<open>lists\<close>, a dictionary object at an address of
  \<open>dicts\<close>; a dictionary is its insertion-ordered sequence of (key, address of the value)
  and \<open>fresh\<close> is the next address a new object gets.
\<close>

type_synonym addr = nat

record heap =
  lists :: "addr \<rightharpoonup> real list"
  dicts :: "addr \<rightharpoonup> (string \<times> addr) list"
  fresh :: addr

text \<open>Reading a list object. An address without an object cannot arise from Python; the
  model reports it as \<open>KeyError\<close> instead of inventing a value.\<close>

definition deref :: "heap \<Rightarrow> addr \<Rightarrow> error + real list" where
  "deref h a = (case lists h a of None \<Rightarrow> Inl KeyError | Some v \<Rightarrow> Inr v)"

text \<open>\<open>cash_flows[k]\<close>.\<close>

definition getitem :: "heap \<Rightarrow> addr \<Rightarrow> string \<Rightarrow> error + addr" where
  "getitem h d k =
     (case dicts h d of
        None \<Rightarrow> Inl KeyError
      | Some es \<Rightarrow> (case map_of es k of None \<Rightarrow> Inl KeyError | Some a \<Rightarrow> Inr a))"

text \<open>\<open>_horizon\<close>: \<open>len(v) - 1\<close> for every value, in the order of the dictionary.\<close>

definition horizon :: "heap \<Rightarrow> (string \<times> addr) list \<Rightarrow> error + int list" where
  "horizon h es = map_err (\<lambda>(k, a). bindE (deref h a) (\<lambda>v. Inr (int (length v) - 1))) es"

text \<open>\<open>_lcm\<close>: \<open>lcm = lcm * num // gcd(lcm, num)\<close>; \<open>math.gcd\<close> is never negative, \<open>//\<close>
  rounds down and raises on a zero divisor.\<close>

fun lcm_loop :: "int \<Rightarrow> int list \<Rightarrow> error + int" where
  "lcm_loop l [] = Inr l"
| "lcm_loop l (num # arr) =
     (if gcd l num = 0 then Inl ZeroDivisionError else lcm_loop (l * num div gcd l num) arr)"

text \<open>\<open>int(x)\<close> of a float: rounding towards zero.\<close>

definition py_int :: "real \<Rightarrow> int" where
  "py_int x = (if 0 \<le> x then \<lfloor>x\<rfloor> else \<lceil>x\<rceil>)"

text \<open>\<open>xs * k\<close> for a list: \<open>k\<close> copies, none for \<open>k \<le> 0\<close>.\<close>

definition list_times :: "'a list \<Rightarrow> int \<Rightarrow> 'a list" where
  "list_times xs k = concat (replicate (nat k) xs)"

text \<open>\<open>v[-1] = x\<close> on the list object at \<open>a\<close>: an in-place update.\<close>

definition set_last :: "heap \<Rightarrow> addr \<Rightarrow> real \<Rightarrow> error + heap" where
  "set_last h a x =
     bindE (deref h a) (\<lambda>v.
       if v = [] then Inl IndexError
       else Inr (h\<lparr>lists := (lists h)(a \<mapsto> v[length v - 1 := x])\<rparr>))"

text \<open>\<open>v[0]\<close> and \<open>v[-1]\<close>.\<close>

definition first_of :: "real list \<Rightarrow> error + real" where
  "first_of v = (if v = [] then Inl IndexError else Inr (hd v))"

definition last_of :: "real list \<Rightarrow> error + real" where
  "last_of v = (if v = [] then Inl IndexError else Inr (last v))"

text \<open>A new list object, and \<open>cash_flows[k] = \<dots>\<close>, which rebinds the key in place.\<close>

definition new_list :: "heap \<Rightarrow> real list \<Rightarrow> addr \<times> heap" where
  "new_list h v = (fresh h, h\<lparr>lists := (lists h)(fresh h \<mapsto> v), fresh := Suc (fresh h)\<rparr>)"

definition setitem :: "heap \<Rightarrow> addr \<Rightarrow> string \<Rightarrow> addr \<Rightarrow> error + heap" where
  "setitem h d k a =
     (case dicts h d of
        None \<Rightarrow> Inl KeyError
      | Some es \<Rightarrow> Inr (h\<lparr>dicts := (dicts h)(d \<mapsto> AList.update k a es)\<rparr>))"

text \<open>
  The body of the \<open>for\<close> loop for the key \<open>k\<close> at position \<open>i\<close>:
  \<^verbatim>\<open>cash_flows[k][-1] = cash_flows[k][0] + cash_flows[k][-1]\<close> updates the caller's list,
  \<^verbatim>\<open>cash_flows[k] = cash_flows[k] + (cash_flows[k][1:] * int(lcm/n[i]-1))\<close> binds the key to
  the new list that \<open>+\<close> builds, and
  \<^verbatim>\<open>cash_flows[k][-1] = cash_flows[k][-1]-cash_flows[k][0]\<close> updates that new list.
\<close>

definition cf_step :: "addr \<Rightarrow> int \<Rightarrow> int list \<Rightarrow> nat \<Rightarrow> string \<Rightarrow> heap \<Rightarrow> error + heap" where
  "cf_step d l n i k h =
     bindE (getitem h d k) (\<lambda>a.
     bindE (deref h a) (\<lambda>v.
     bindE (first_of v) (\<lambda>x0.
     bindE (last_of v) (\<lambda>xl.
     bindE (set_last h a (x0 + xl)) (\<lambda>h1.
     bindE (getitem h1 d k) (\<lambda>a1.
     bindE (deref h1 a1) (\<lambda>v1.
     if length n \<le> i then Inl IndexError
     else if n ! i = 0 then Inl ZeroDivisionError
     else
       let reps = py_int (real_of_int l / real_of_int (n ! i) - 1);
           (a2, h2) = new_list h1 (v1 @ list_times (tl v1) reps)
       in
     bindE (setitem h2 d k a2) (\<lambda>h3.
     bindE (getitem h3 d k) (\<lambda>a3.
     bindE (deref h3 a3) (\<lambda>v3.
     bindE (last_of v3) (\<lambda>yl.
     bindE (first_of v3) (\<lambda>y0.
     set_last h3 a3 (yl - y0)))))))))))))"

fun cf_loop :: "addr \<Rightarrow> int \<Rightarrow> int list \<Rightarrow> (nat \<times> string) list \<Rightarrow> heap \<Rightarrow> error + heap" where
  "cf_loop d l n [] h = Inr h"
| "cf_loop d l n ((i, k) # iks) h = bindE (cf_step d l n i k h) (cf_loop d l n iks)"

text \<open>\<open>cfCommon(cash_flows)\<close> for the dictionary object at \<open>d\<close>: the address returned and
  the store afterwards.\<close>

definition cfCommon :: "addr \<Rightarrow> heap \<Rightarrow> error + (addr \<times> heap)" where
  "cfCommon d h =
     (case dicts h d of
        None \<Rightarrow> Inl KeyError
      | Some es \<Rightarrow>
          bindE (horizon h es) (\<lambda>n.
          bindE (lcm_loop 1 n) (\<lambda>l.
          bindE (cf_loop d l n (enumerate 0 (map fst es)) h) (\<lambda>h'. Inr (d, h')))))"

text \<open>The series a dictionary holds, key by key.\<close>

definition series :: "heap \<Rightarrow> addr \<Rightarrow> (string \<times> real list) list" where
  "series h d =
     (case dicts h d of
        None \<Rightarrow> []
      | Some es \<Rightarrow> map (\<lambda>(k, a). (k, case lists h a of None \<Rightarrow> [] | Some v \<Rightarrow> v)) es)"

text \<open>The example of the docstring: two list objects at 0 and 1, the dictionary at 2.\<close>

definition example_heap :: heap where
  "example_heap =
     \<lparr>lists = [0 \<mapsto> [- 1000, 300, 400, 500], 1 \<mapsto> [- 2000, 300, 400, 500, 600]],
      dicts = [2 \<mapsto> [(''cf1'', 0), (''cf2'', 1)]],
      fresh = 3\<rparr>"

text \<open>
  What the three statements of the loop body make of a series \<open>v\<close>: \<open>fold_last\<close> is the
  caller's list after the first statement, \<open>extend\<close> the new list the second builds from
  it, \<open>restore_last\<close> the third statement on that new list, and \<open>common_series\<close> the
  three in a row.
\<close>

definition fold_last :: "real list \<Rightarrow> real list" where
  "fold_last v = v[length v - 1 := hd v + last v]"

definition extend :: "int \<Rightarrow> int \<Rightarrow> real list \<Rightarrow> real list" where
  "extend l hz v = v @ list_times (tl v) (py_int (real_of_int l / real_of_int hz - 1))"

definition restore_last :: "real list \<Rightarrow> real list" where
  "restore_last w = w[length w - 1 := last w - hd w]"

definition common_series :: "int \<Rightarrow> int \<Rightarrow> real list \<Rightarrow> real list" where
  "common_series l hz v = restore_last (extend l hz (fold_last v))"

text \<open>The key \<open>k\<close> is bound to an allocated list object whose horizon is \<open>hz\<close>.\<close>

definition bound_at :: "heap \<Rightarrow> (string \<times> addr) list \<Rightarrow> string \<Rightarrow> int \<Rightarrow> bool" where
  "bound_at h es k hz =
     (\<exists>a v. map_of es k = Some a \<and> lists h a = Some v \<and> a < fresh h \<and> hz = int (length v) - 1)"

text \<open>After the loop the key \<open>k\<close>, first bound to the list object \<open>a\<close> holding \<open>v\<close>, is
  bound to an object \<open>a'\<close> allocated by the loop; \<open>a\<close> holds \<open>fold_last v\<close> and \<open>a'\<close> the
  common series.\<close>

definition rebound ::
  "heap \<Rightarrow> (string \<times> addr) list \<Rightarrow> heap \<Rightarrow> (string \<times> addr) list \<Rightarrow> int \<Rightarrow> string \<Rightarrow> int \<Rightarrow> bool" where
  "rebound h es h' es' l k hz =
     (\<exists>a v a'. map_of es k = Some a \<and> lists h a = Some v \<and> hz = int (length v) - 1 \<and>
        lists h' a = Some (fold_last v) \<and>
        map_of es' k = Some a' \<and> fresh h \<le> a' \<and> a' < fresh h' \<and>
        lists h' a' = Some (common_series l hz v))"

text \<open>The store after \<open>cfCommon\<close> on the docstring's example.\<close>

definition example_result :: heap where
  "example_result =
     \<lparr>lists =
        [0 \<mapsto> [- 1000, 300, 400, - 500],
         1 \<mapsto> [- 2000, 300, 400, 500, - 1400],
         3 \<mapsto> [- 1000, 300, 400, - 500, 300, 400, - 500, 300, 400, - 500, 300, 400, 500],
         4 \<mapsto> [- 2000, 300, 400, 500, - 1400, 300, 400, 500, - 1400, 300, 400, 500, 600]],
      dicts = [2 \<mapsto> [(''cf1'', 3), (''cf2'', 4)]],
      fresh = 5\<rparr>"

section \<open>Properties of \<open>Decision.fit\<close>\<close>

lemmas np_defs = bindE_def np_max_def np_min_def np_argmax_def np_argmin_def max_axis1_def min_axis1_def
  column_def max_axis0_def sub_broadcast_def dot_def matmul_def alt_at_def

lemmas fixture_defs = Decision_init_def fixture_table_def fixture_payoff_def fixture_prob_def

lemmas fit_branch_defs = fit_criterion_def fit_maxmax_def fit_maxmin_def fit_regret_def
  fit_maxlik_def fit_ev_def build_dict_def Let_def

text \<open>
  C3. On the fixture of \<open>tests/dec_test.py\<close> (five alternatives \<open>$5\<close> to \<open>$9\<close>, three
  states, probabilities 0.35, 0.25, 0.4) \<open>fit\<close> with all five criteria raises nothing and
  leaves exactly these results: \<open>maxmax\<close> gives (\<open>$9\<close>, 625), \<open>maxmin\<close> (\<open>$7\<close>, 225),
  \<open>regret\<close> (\<open>$8\<close>, 25), \<open>maxlik\<close> (\<open>$9\<close>, 625) and \<open>ev\<close> (\<open>$8\<close>, 625).
\<close>

theorem fit_fixture_results:
  "fst (fit (Decision_init fixture_table all_criteria)) = None \<and>
   results (snd (fit (Decision_init fixture_table all_criteria))) =
     [''maxmax'' \<mapsto> (StrLabel ''$9'', 625), ''maxmin'' \<mapsto> (StrLabel ''$7'', 225),
      ''regret'' \<mapsto> (StrLabel ''$8'', 25), ''maxlik'' \<mapsto> (StrLabel ''$9'', 625),
      ''ev'' \<mapsto> (StrLabel ''$8'', 625)]"
  by (simp add: fit_def fixture_defs all_criteria_def fit_branch_defs np_defs upt_rec)

text \<open>
  C1 fails on the code. On the same fixture the largest expected value is 410, which
  \<open>fit\<close> assigns to \<open>ev_pf_\<close>; the pair stored under \<open>ev\<close> carries 625, the payoff of the
  \<open>maxlik\<close> criterion.
\<close>

theorem fit_ev_stores_maxlik_payoff:
  "results (snd (fit (Decision_init fixture_table all_criteria))) ''ev'' =
     Some (StrLabel ''$8'', 625) \<and>
   mle_pf (snd (fit (Decision_init fixture_table all_criteria))) = Some 625 \<and>
   ev_pf (snd (fit (Decision_init fixture_table all_criteria))) = Some 410 \<and>
   bindE (matmul fixture_payoff fixture_prob) np_max = Inr 410"
  by (simp add: fit_def fixture_defs all_criteria_def fit_branch_defs np_defs upt_rec)

lemma fit_criterion_payoff:
  "fit_criterion c s = (e, s') \<Longrightarrow> payoff s' = payoff s"
  by (auto simp: fit_branch_defs split: if_splits sum.splits option.splits)

lemma fit_criterion_maxmax:
  "fit_criterion c s = (e, s') \<Longrightarrow> results s' ''maxmax'' = Some (l, a) \<Longrightarrow>
   results s ''maxmax'' = Some (l, a) \<or> bindE (max_axis1 (payoff s)) np_max = Inr a"
  by (auto simp: fit_branch_defs split: if_splits sum.splits option.splits)

lemma fit_criterion_maxmin:
  "fit_criterion c s = (e, s') \<Longrightarrow> results s' ''maxmin'' = Some (l, b) \<Longrightarrow>
   results s ''maxmin'' = Some (l, b) \<or> bindE (min_axis1 (payoff s)) np_max = Inr b"
  by (auto simp: fit_branch_defs split: if_splits sum.splits option.splits)

lemma fit_loop_payoff:
  "fit_loop cs s = (e, s') \<Longrightarrow> payoff s' = payoff s"
proof (induction cs arbitrary: s)
  case Nil
  then show ?case by simp
next
  case (Cons c cs)
  obtain e1 s1 where st: "fit_criterion c s = (e1, s1)" by (cases "fit_criterion c s")
  show ?case
  proof (cases e1)
    case None
    with Cons.prems st have "fit_loop cs s1 = (e, s')" by simp
    then have "payoff s' = payoff s1" by (rule Cons.IH)
    with fit_criterion_payoff [OF st] show ?thesis by simp
  next
    case (Some x)
    with Cons.prems st have "s' = s1" by simp
    with fit_criterion_payoff [OF st] show ?thesis by simp
  qed
qed

lemma fit_loop_maxmax:
  "fit_loop cs s = (e, s') \<Longrightarrow> results s' ''maxmax'' = Some (l, a) \<Longrightarrow>
   results s ''maxmax'' = Some (l, a) \<or> bindE (max_axis1 (payoff s)) np_max = Inr a"
proof (induction cs arbitrary: s)
  case Nil
  then show ?case by simp
next
  case (Cons c cs)
  obtain e1 s1 where st: "fit_criterion c s = (e1, s1)" by (cases "fit_criterion c s")
  have pf: "payoff s1 = payoff s" by (rule fit_criterion_payoff [OF st])
  have "results s1 ''maxmax'' = Some (l, a) \<or> bindE (max_axis1 (payoff s1)) np_max = Inr a"
  proof (cases e1)
    case None
    with Cons.prems st have "fit_loop cs s1 = (e, s')" by simp
    then show ?thesis using Cons.prems(2) by (rule Cons.IH)
  next
    case (Some x)
    with Cons.prems st show ?thesis by simp
  qed
  then show ?case using fit_criterion_maxmax [OF st] pf by auto
qed

lemma fit_loop_maxmin:
  "fit_loop cs s = (e, s') \<Longrightarrow> results s' ''maxmin'' = Some (l, b) \<Longrightarrow>
   results s ''maxmin'' = Some (l, b) \<or> bindE (min_axis1 (payoff s)) np_max = Inr b"
proof (induction cs arbitrary: s)
  case Nil
  then show ?case by simp
next
  case (Cons c cs)
  obtain e1 s1 where st: "fit_criterion c s = (e1, s1)" by (cases "fit_criterion c s")
  have pf: "payoff s1 = payoff s" by (rule fit_criterion_payoff [OF st])
  have "results s1 ''maxmin'' = Some (l, b) \<or> bindE (min_axis1 (payoff s1)) np_max = Inr b"
  proof (cases e1)
    case None
    with Cons.prems st have "fit_loop cs s1 = (e, s')" by simp
    then show ?thesis using Cons.prems(2) by (rule Cons.IH)
  next
    case (Some x)
    with Cons.prems st show ?thesis by simp
  qed
  then show ?case using fit_criterion_maxmin [OF st] pf by auto
qed

lemma fold_max_mono:
  "list_all2 (\<le>) ys xs \<Longrightarrow> (y::real) \<le> x \<Longrightarrow> fold max ys y \<le> fold max xs x"
proof (induction ys xs arbitrary: y x rule: list_all2_induct)
  case Nil
  then show ?case by simp
next
  case (Cons b bs a as)
  have "max b y \<le> max a x" using Cons.hyps(1) Cons.prems by linarith
  then show ?case using Cons.IH by simp
qed

lemma np_max_mono:
  "list_all2 (\<le>) ys xs \<Longrightarrow> np_max ys = Inr b \<Longrightarrow> np_max xs = Inr a \<Longrightarrow> b \<le> a"
  by (cases ys; cases xs) (auto simp: np_max_def fold_max_mono)

lemma fold_min_le: "fold min xs (x::real) \<le> x"
proof (induction xs arbitrary: x)
  case Nil
  show ?case by simp
next
  case (Cons a xs)
  have "fold min xs (min a x) \<le> min a x" by (rule Cons.IH)
  then show ?case by simp
qed

lemma fold_max_ge: "(x::real) \<le> fold max xs x"
proof (induction xs arbitrary: x)
  case Nil
  show ?case by simp
next
  case (Cons a xs)
  have "max a x \<le> fold max xs (max a x)" by (rule Cons.IH)
  then show ?case by simp
qed

lemma row_min_le_max: "np_min r = Inr b \<Longrightarrow> np_max r = Inr a \<Longrightarrow> b \<le> a"
proof (cases r)
  case Nil
  then show "np_min r = Inr b \<Longrightarrow> np_max r = Inr a \<Longrightarrow> b \<le> a" by (simp add: np_min_def)
next
  case (Cons x xs)
  assume "np_min r = Inr b" "np_max r = Inr a"
  with Cons have "b = fold min xs x" "a = fold max xs x" by (auto simp: np_min_def np_max_def)
  then show "b \<le> a" using fold_min_le [of xs x] fold_max_ge [of x xs] by linarith
qed

lemma rows_min_le_max:
  "map_err np_min rs = Inr ys \<Longrightarrow> map_err np_max rs = Inr xs \<Longrightarrow> list_all2 (\<le>) ys xs"
proof (induction rs arbitrary: ys xs)
  case Nil
  then show ?case by simp
next
  case (Cons r rs)
  then show ?case
    by (auto split: sum.splits dest: row_min_le_max)
qed

lemma maxmin_le_maxmax:
  assumes "bindE (min_axis1 p) np_max = Inr b" and "bindE (max_axis1 p) np_max = Inr a"
  shows "b \<le> a"
proof -
  from assms obtain ys xs where
    ys: "map_err np_min (rows p) = Inr ys" "np_max ys = Inr b" and
    xs: "map_err np_max (rows p) = Inr xs" "np_max xs = Inr a"
    by (auto simp: bindE_def min_axis1_def max_axis1_def split: sum.splits if_splits)
  from rows_min_le_max [OF ys(1) xs(1)] ys(2) xs(2) show ?thesis by (rule np_max_mono)
qed

text \<open>
  C7. Whatever the payoff table and the list of criteria, once \<open>fit\<close> has stored a result
  for \<open>maxmin\<close> and one for \<open>maxmax\<close>, the payoff stored for \<open>maxmin\<close> (the largest of
  the row minima) is at most the payoff stored for \<open>maxmax\<close> (the largest of the row
  maxima).
\<close>

theorem fit_maxmin_le_maxmax:
  assumes "fit (Decision_init t cs) = (e, s')"
    and "results s' ''maxmax'' = Some (la, a)"
    and "results s' ''maxmin'' = Some (lb, b)"
  shows "b \<le> a"
proof -
  let ?s = "Decision_init t cs"
  have run: "fit_loop cs ?s = (e, s')"
    using assms(1) by (simp add: fit_def Decision_init_def split: prod.splits)
  have empty: "results ?s = Map.empty" by (simp add: Decision_init_def split: prod.splits)
  from fit_loop_maxmax [OF run assms(2)] empty
  have a: "bindE (max_axis1 (payoff ?s)) np_max = Inr a" by simp
  from fit_loop_maxmin [OF run assms(3)] empty
  have b: "bindE (min_axis1 (payoff ?s)) np_max = Inr b" by simp
  from b a show ?thesis by (rule maxmin_le_maxmax)
qed

theorem fit_maxmin_le_maxmax_witness:
  "results (snd (fit (Decision_init fixture_table all_criteria))) ''maxmax'' =
     Some (StrLabel ''$9'', 625) \<and>
   results (snd (fit (Decision_init fixture_table all_criteria))) ''maxmin'' =
     Some (StrLabel ''$7'', 225) \<and>
   (225 :: real) \<le> 625"
proof -
  let ?r = "fit (Decision_init fixture_table all_criteria)"
  have run: "?r = (fst ?r, snd ?r)" by simp
  have a: "results (snd ?r) ''maxmax'' = Some (StrLabel ''$9'', 625)"
    by (simp add: fit_def fixture_defs all_criteria_def fit_branch_defs np_defs upt_rec)
  have b: "results (snd ?r) ''maxmin'' = Some (StrLabel ''$7'', 225)"
    by (simp add: fit_def fixture_defs all_criteria_def fit_branch_defs np_defs upt_rec)
  from fit_maxmin_le_maxmax [OF run a b] a b show ?thesis by simp
qed

lemma map_err_total:
  "(\<And>x. x \<in> set xs \<Longrightarrow> \<exists>y. f x = Inr y) \<Longrightarrow> \<exists>ys. map_err f xs = Inr ys \<and> length ys = length xs"
proof (induction xs)
  case Nil
  show ?case by simp
next
  case (Cons x xs)
  obtain y where y: "f x = Inr y" using Cons.prems [of x] by auto
  obtain ys where ys: "map_err f xs = Inr ys" "length ys = length xs"
    using Cons.IH Cons.prems by auto
  show ?case using y ys by simp
qed

lemma fold_max_in: "fold max xs (x::real) \<in> set (x # xs)"
proof (induction xs arbitrary: x)
  case Nil
  show ?case by simp
next
  case (Cons a xs)
  have step: "fold max xs (max a x) \<in> set (max a x # xs)" by (rule Cons.IH)
  have "max a x = a \<or> max a x = x" by (simp add: max_def)
  then show ?case using step by auto
qed

lemma fold_min_in: "fold min xs (x::real) \<in> set (x # xs)"
proof (induction xs arbitrary: x)
  case Nil
  show ?case by simp
next
  case (Cons a xs)
  have step: "fold min xs (min a x) \<in> set (min a x # xs)" by (rule Cons.IH)
  have "min a x = a \<or> min a x = x" by (simp add: min_def)
  then show ?case using step by auto
qed

lemma first_index_less: "x \<in> set v \<Longrightarrow> first_index v x < length v"
  by (induction v) auto

lemma np_max_total: "v \<noteq> [] \<Longrightarrow> \<exists>y. np_max v = Inr y"
  by (cases v) (auto simp: np_max_def)

lemma np_min_total: "v \<noteq> [] \<Longrightarrow> \<exists>y. np_min v = Inr y"
  by (cases v) (auto simp: np_min_def)

lemma np_argmax_total: "v \<noteq> [] \<Longrightarrow> \<exists>i. np_argmax v = Inr i \<and> i < length v"
proof (cases v)
  case Nil
  then show "v \<noteq> [] \<Longrightarrow> ?thesis" by simp
next
  case (Cons x xs)
  have "first_index (x # xs) (fold max xs x) < length (x # xs)"
    by (rule first_index_less [OF fold_max_in])
  with Cons show ?thesis by (simp add: np_argmax_def np_max_def bindE_def)
qed

lemma np_argmin_total: "v \<noteq> [] \<Longrightarrow> \<exists>i. np_argmin v = Inr i \<and> i < length v"
proof (cases v)
  case Nil
  then show "v \<noteq> [] \<Longrightarrow> ?thesis" by simp
next
  case (Cons x xs)
  have "first_index (x # xs) (fold min xs x) < length (x # xs)"
    by (rule first_index_less [OF fold_min_in])
  with Cons show ?thesis by (simp add: np_argmin_def np_min_def bindE_def)
qed

lemma max_axis1_total:
  assumes "array_ok a"
  shows "\<exists>xs. max_axis1 a = Inr xs \<and> length xs = length (rows a) \<and> xs \<noteq> []"
proof -
  have "\<And>r. r \<in> set (rows a) \<Longrightarrow> \<exists>y. np_max r = Inr y"
    using assms by (intro np_max_total) (auto simp: array_ok_def wf_ndarray2_def list_all_iff)
  from map_err_total [of "rows a" np_max, OF this] assms show ?thesis
    by (auto simp: max_axis1_def array_ok_def)
qed

lemma min_axis1_total:
  assumes "array_ok a"
  shows "\<exists>xs. min_axis1 a = Inr xs \<and> length xs = length (rows a) \<and> xs \<noteq> []"
proof -
  have "\<And>r. r \<in> set (rows a) \<Longrightarrow> \<exists>y. np_min r = Inr y"
    using assms by (intro np_min_total) (auto simp: array_ok_def wf_ndarray2_def list_all_iff)
  from map_err_total [of "rows a" np_min, OF this] assms show ?thesis
    by (auto simp: min_axis1_def array_ok_def)
qed

lemma max_axis0_total:
  assumes "array_ok a"
  shows "\<exists>cm. max_axis0 a = Inr cm \<and> length cm = ncols a"
proof -
  have "\<And>j. j \<in> set [0 ..< ncols a] \<Longrightarrow> \<exists>y. bindE (column a j) np_max = Inr y"
    using assms np_max_total [of "map (\<lambda>r. r ! j) (rows a)" for j]
    by (auto simp: column_def bindE_def array_ok_def)
  from map_err_total [of "[0 ..< ncols a]" "\<lambda>j. bindE (column a j) np_max", OF this] assms
  show ?thesis by (auto simp: max_axis0_def array_ok_def)
qed

lemma sub_broadcast_ok:
  "array_ok a \<Longrightarrow> length cm = ncols a \<Longrightarrow> array_ok (sub_broadcast cm a)"
  by (auto simp: array_ok_def wf_ndarray2_def sub_broadcast_def list_all_iff)

lemma sub_broadcast_rows: "length (rows (sub_broadcast cm a)) = length (rows a)"
  by (simp add: sub_broadcast_def)

lemma fit_criterion_table:
  "fit_criterion c s = (e, s') \<Longrightarrow> alts s' = alts s \<and> prob s' = prob s \<and> crit s' = crit s"
  by (auto simp: fit_branch_defs split: if_splits sum.splits option.splits)

lemma fit_criterion_mle_pf:
  "fit_criterion c s = (e, s') \<Longrightarrow> c \<noteq> ''maxlik'' \<Longrightarrow> mle_pf s' = mle_pf s"
  by (auto simp: fit_branch_defs split: if_splits sum.splits option.splits)

lemma fit_criterion_no_ev:
  "fit_criterion c s = (e, s') \<Longrightarrow> mle_pf s = None \<Longrightarrow> results s ''ev'' = None \<Longrightarrow>
   results s' ''ev'' = None"
  by (auto simp: fit_branch_defs split: if_splits sum.splits option.splits)

lemma fit_ev_fails: "mle_pf s = None \<Longrightarrow> \<exists>e s'. fit_ev s = (Some e, s')"
  by (auto simp: fit_ev_def Let_def split: sum.splits option.splits)

lemma table_ok_step:
  "fit_criterion c s = (e, s') \<Longrightarrow> table_ok s \<Longrightarrow> table_ok s'"
  using fit_criterion_table [of c s e s'] fit_criterion_payoff [of c s e s']
  by (simp add: table_ok_def)

lemma fit_maxmax_ok:
  assumes "table_ok s"
  shows "\<exists>s'. fit_maxmax s = (None, s')"
proof -
  from assms have ok: "array_ok (payoff s)" by (simp add: table_ok_def)
  from max_axis1_total [OF ok] obtain xs where
    xs: "max_axis1 (payoff s) = Inr xs" "length xs = length (rows (payoff s))" "xs \<noteq> []" by auto
  from np_argmax_total [OF xs(3)] obtain i where i: "np_argmax xs = Inr i" "i < length xs" by auto
  from np_max_total [OF xs(3)] obtain p where p: "np_max xs = Inr p" by auto
  from i xs assms have "alt_at s i = Inr (alts s ! i)" by (simp add: alt_at_def table_ok_def)
  with xs i p show ?thesis by (simp add: fit_maxmax_def bindE_def)
qed

lemma fit_maxmin_ok:
  assumes "table_ok s"
  shows "\<exists>s'. fit_maxmin s = (None, s')"
proof -
  from assms have ok: "array_ok (payoff s)" by (simp add: table_ok_def)
  from min_axis1_total [OF ok] obtain xs where
    xs: "min_axis1 (payoff s) = Inr xs" "length xs = length (rows (payoff s))" "xs \<noteq> []" by auto
  from np_argmax_total [OF xs(3)] obtain i where i: "np_argmax xs = Inr i" "i < length xs" by auto
  from np_max_total [OF xs(3)] obtain p where p: "np_max xs = Inr p" by auto
  from i xs assms have "alt_at s i = Inr (alts s ! i)" by (simp add: alt_at_def table_ok_def)
  with xs i p show ?thesis by (simp add: fit_maxmin_def bindE_def)
qed

lemma fit_regret_ok:
  assumes "table_ok s"
  shows "\<exists>s'. fit_regret s = (None, s')"
proof -
  from assms have ok: "array_ok (payoff s)" by (simp add: table_ok_def)
  from max_axis0_total [OF ok] obtain cm where
    cm: "max_axis0 (payoff s) = Inr cm" "length cm = ncols (payoff s)" by auto
  let ?rg = "sub_broadcast cm (payoff s)"
  have rg: "array_ok ?rg" by (rule sub_broadcast_ok [OF ok cm(2)])
  from max_axis1_total [OF rg] obtain xs where
    xs: "max_axis1 ?rg = Inr xs" "length xs = length (rows (payoff s))" "xs \<noteq> []"
    by (auto simp: sub_broadcast_rows)
  from np_argmin_total [OF xs(3)] obtain i where i: "np_argmin xs = Inr i" "i < length xs" by auto
  from np_min_total [OF xs(3)] obtain p where p: "np_min xs = Inr p" by auto
  from i xs assms have "alt_at (s\<lparr>regret_mat := Some ?rg\<rparr>) i = Inr (alts s ! i)"
    by (simp add: alt_at_def table_ok_def)
  with cm xs i p show ?thesis by (simp add: fit_regret_def bindE_def Let_def)
qed

lemma fit_ev_attribute_error:
  assumes "table_ok s" and "mle_pf s = None"
  shows "\<exists>s'. fit_ev s = (Some (AttributeError ''mle_pf_''), s')"
proof -
  let ?dp = "map (\<lambda>r. dot r (prob s)) (rows (payoff s))"
  from assms have mm: "matmul (payoff s) (prob s) = Inr ?dp" and ne: "?dp \<noteq> []"
    by (auto simp: matmul_def table_ok_def array_ok_def)
  from np_argmax_total [OF ne] obtain i where i: "np_argmax ?dp = Inr i" "i < length ?dp" by auto
  from np_max_total [OF ne] obtain p where p: "np_max ?dp = Inr p" by auto
  from i assms have "alt_at s i = Inr (alts s ! i)" by (simp add: alt_at_def table_ok_def)
  with mm i p assms(2) show ?thesis by (simp add: fit_ev_def bindE_def)
qed

lemma fit_loop_no_ev_result:
  assumes "''maxlik'' \<notin> set pre" and "mle_pf s = None" and "results s ''ev'' = None"
  shows "\<exists>e s'. fit_loop (pre @ ''ev'' # post) s = (Some e, s') \<and> results s' ''ev'' = None"
  using assms
proof (induction pre arbitrary: s)
  case Nil
  from fit_ev_fails [OF Nil(2)] obtain e s' where f: "fit_ev s = (Some e, s')" by auto
  then have fc: "fit_criterion ''ev'' s = (Some e, s')" by (simp add: fit_criterion_def)
  from fit_criterion_no_ev [OF fc Nil(2,3)] fc show ?case by simp
next
  case (Cons c pre)
  obtain e1 s1 where st: "fit_criterion c s = (e1, s1)" by (cases "fit_criterion c s")
  from Cons.prems have c: "c \<noteq> ''maxlik''" by auto
  have m1: "mle_pf s1 = None" using fit_criterion_mle_pf [OF st c] Cons.prems by simp
  have r1: "results s1 ''ev'' = None" by (rule fit_criterion_no_ev [OF st Cons.prems(2,3)])
  show ?case
  proof (cases e1)
    case None
    from Cons.prems have "''maxlik'' \<notin> set pre" by simp
    from Cons.IH [OF this m1 r1] st None show ?thesis by simp
  next
    case (Some x)
    with st r1 show ?thesis by simp
  qed
qed

lemma fit_loop_attribute_error:
  assumes "set pre \<subseteq> {''maxmax'', ''maxmin'', ''regret'', ''ev''}"
    and "table_ok s" and "mle_pf s = None"
  shows "\<exists>s'. fit_loop (pre @ ''ev'' # post) s = (Some (AttributeError ''mle_pf_''), s')"
  using assms
proof (induction pre arbitrary: s)
  case Nil
  from fit_ev_attribute_error [OF Nil(2,3)] show ?case by (auto simp: fit_criterion_def)
next
  case (Cons c pre)
  from Cons.prems(1) have c: "c = ''maxmax'' \<or> c = ''maxmin'' \<or> c = ''regret'' \<or> c = ''ev''"
    and pre: "set pre \<subseteq> {''maxmax'', ''maxmin'', ''regret'', ''ev''}" by auto
  from c have nm: "c \<noteq> ''maxlik''" by auto
  from c consider (ok) s1 where "fit_criterion c s = (None, s1)"
    | (err) s1 where "fit_criterion c s = (Some (AttributeError ''mle_pf_''), s1)"
    using fit_maxmax_ok [OF Cons.prems(2)] fit_maxmin_ok [OF Cons.prems(2)]
      fit_regret_ok [OF Cons.prems(2)] fit_ev_attribute_error [OF Cons.prems(2,3)]
    by (auto simp: fit_criterion_def)
  then show ?case
  proof cases
    case ok
    have "table_ok s1" by (rule table_ok_step [OF ok Cons.prems(2)])
    moreover have "mle_pf s1 = None" using fit_criterion_mle_pf [OF ok nm] Cons.prems(3) by simp
    ultimately show ?thesis using Cons.IH [OF pre] ok by simp
  next
    case err
    then show ?thesis by simp
  qed
qed

text \<open>
  C9, as amended. On a freshly constructed object whose criteria list has an \<open>ev\<close> with no
  \<open>maxlik\<close> before it, \<open>fit\<close> raises an exception and stores no \<open>ev\<close> result. The
  exception is the \<open>AttributeError\<close> for \<open>mle_pf_\<close> when every name before that \<open>ev\<close> is
  one of \<open>maxmax\<close>, \<open>maxmin\<close>, \<open>regret\<close>, \<open>ev\<close> and the payoff table (\<open>table_ok\<close>) has at
  least one alternative and one state, as many labels as rows and as many probabilities
  as columns.
\<close>

theorem fit_ev_without_maxlik:
  assumes "cs = pre @ ''ev'' # post" and "''maxlik'' \<notin> set pre"
  shows "(\<exists>e s'. fit (Decision_init t cs) = (Some e, s') \<and> results s' ''ev'' = None) \<and>
         (set pre \<subseteq> {''maxmax'', ''maxmin'', ''regret'', ''ev''} \<and> table_ok (Decision_init t cs)
          \<longrightarrow> fst (fit (Decision_init t cs)) = Some (AttributeError ''mle_pf_''))"
proof -
  let ?s = "Decision_init t cs"
  have fresh: "mle_pf ?s = None" "results ?s ''ev'' = None" "crit ?s = cs"
    by (simp_all add: Decision_init_def split: prod.splits)
  have a: "\<exists>e s'. fit ?s = (Some e, s') \<and> results s' ''ev'' = None"
    using fit_loop_no_ev_result [OF assms(2) fresh(1,2), of post] fresh(3) assms(1)
    by (simp add: fit_def)
  have b: "fst (fit ?s) = Some (AttributeError ''mle_pf_'')"
    if "set pre \<subseteq> {''maxmax'', ''maxmin'', ''regret'', ''ev''}" "table_ok ?s"
    using fit_loop_attribute_error [OF that fresh(1), of post] fresh(3) assms(1)
    by (auto simp: fit_def)
  from a b show ?thesis by blast
qed

theorem fit_ev_without_maxlik_witness:
  "fst (fit (Decision_init fixture_table [''maxmax'', ''ev''])) = Some (AttributeError ''mle_pf_'') \<and>
   results (snd (fit (Decision_init fixture_table [''maxmax'', ''ev'']))) ''ev'' = None"
proof -
  let ?s = "Decision_init fixture_table [''maxmax'', ''ev'']"
  have c: "[''maxmax'', ''ev''] = [''maxmax''] @ ''ev'' # []" by simp
  have m: "''maxlik'' \<notin> set [''maxmax'']" by simp
  have p: "set [''maxmax''] \<subseteq> {''maxmax'', ''maxmin'', ''regret'', ''ev''}" by simp
  have t: "table_ok ?s"
    by (simp add: table_ok_def array_ok_def wf_ndarray2_def fixture_defs)
  from fit_ev_without_maxlik [OF c m, of fixture_table] p t show ?thesis by auto
qed

text \<open>
  C9 as stated fails: an unsupported name before \<open>ev\<close> ends \<open>fit\<close> with the
  unknown-criterion \<open>ValueError\<close>, not with an \<open>AttributeError\<close>.
\<close>

theorem fit_ev_without_maxlik_counterexample:
  "fst (fit (Decision_init fixture_table [''bogus'', ''ev''])) = Some (UnknownCriterion ''bogus'') \<and>
   fst (fit (Decision_init fixture_table [''bogus'', ''ev''])) \<noteq> Some (AttributeError ''mle_pf_'')"
  by (simp add: fit_def fixture_defs fit_branch_defs np_defs)

lemma fit_loop_append:
  "fit_loop pre s = (None, s1) \<Longrightarrow> fit_loop (pre @ rest) s = fit_loop rest s1"
proof (induction pre arbitrary: s)
  case Nil
  then show ?case by simp
next
  case (Cons c pre)
  obtain e1 s2 where st: "fit_criterion c s = (e1, s2)" by (cases "fit_criterion c s")
  show ?case
  proof (cases e1)
    case None
    with Cons.prems st have "fit_loop pre s2 = (None, s1)" by simp
    from Cons.IH [OF this] st None show ?thesis by simp
  next
    case (Some x)
    with Cons.prems st show ?thesis by simp
  qed
qed

lemma fit_criterion_unknown:
  "bad \<notin> set all_criteria \<Longrightarrow> fit_criterion bad s = (Some (UnknownCriterion bad), s)"
  by (auto simp: fit_criterion_def all_criteria_def)

lemma fit_criterion_stores:
  "fit_criterion c s = (None, s') \<Longrightarrow> results s' c \<noteq> None"
  by (auto simp: fit_branch_defs split: if_splits sum.splits option.splits)

lemma fit_criterion_keeps:
  "fit_criterion c s = (e, s') \<Longrightarrow> results s k \<noteq> None \<Longrightarrow> results s' k \<noteq> None"
  by (auto simp: fit_branch_defs split: if_splits sum.splits option.splits)

lemma fit_loop_keeps:
  "fit_loop cs s = (e, s') \<Longrightarrow> results s k \<noteq> None \<Longrightarrow> results s' k \<noteq> None"
proof (induction cs arbitrary: s)
  case Nil
  then show ?case by simp
next
  case (Cons c cs)
  obtain e1 s1 where st: "fit_criterion c s = (e1, s1)" by (cases "fit_criterion c s")
  have k1: "results s1 k \<noteq> None" by (rule fit_criterion_keeps [OF st Cons.prems(2)])
  show ?case
  proof (cases e1)
    case None
    with Cons.prems st have "fit_loop cs s1 = (e, s')" by simp
    from Cons.IH [OF this k1] show ?thesis .
  next
    case (Some x)
    with Cons.prems st k1 show ?thesis by simp
  qed
qed

lemma fit_loop_stores:
  "fit_loop pre s = (None, s1) \<Longrightarrow> c \<in> set pre \<Longrightarrow> results s1 c \<noteq> None"
proof (induction pre arbitrary: s)
  case Nil
  then show ?case by simp
next
  case (Cons d pre)
  obtain e1 s2 where st: "fit_criterion d s = (e1, s2)" by (cases "fit_criterion d s")
  from Cons.prems(1) st have e1: "e1 = None" by (cases e1) auto
  with Cons.prems(1) st have run: "fit_loop pre s2 = (None, s1)" by simp
  show ?case
  proof (cases "c = d")
    case True
    with st e1 have "results s2 c \<noteq> None" by (auto dest: fit_criterion_stores)
    with run show ?thesis by (rule fit_loop_keeps)
  next
    case False
    with Cons.prems(2) have "c \<in> set pre" by simp
    with run show ?thesis by (rule Cons.IH)
  qed
qed

text \<open>
  C6, as amended. When the criteria before the first unsupported name are all computed
  without an exception, \<open>fit\<close> raises the unknown-criterion \<open>ValueError\<close> for that name,
  and the object is left exactly as those earlier criteria left it: each of them has its
  entry in the results collection.
\<close>

theorem fit_unknown_criterion_keeps_results:
  assumes "crit s = pre @ bad # post" and "bad \<notin> set all_criteria"
    and "fit_loop pre s = (None, s1)"
  shows "fit s = (Some (UnknownCriterion bad), s1) \<and> (\<forall>c \<in> set pre. results s1 c \<noteq> None)"
proof -
  have "fit s = fit_loop (bad # post) s1"
    using fit_loop_append [OF assms(3)] assms(1) by (simp add: fit_def)
  then have "fit s = (Some (UnknownCriterion bad), s1)"
    using fit_criterion_unknown [OF assms(2)] by simp
  moreover have "\<forall>c \<in> set pre. results s1 c \<noteq> None"
    using fit_loop_stores [OF assms(3)] by blast
  ultimately show ?thesis by simp
qed

theorem fit_unknown_criterion_keeps_results_witness:
  "fst (fit_loop [''maxmax'', ''maxmin'']
      (Decision_init fixture_table [''maxmax'', ''maxmin'', ''bogus'', ''ev''])) = None \<and>
   fst (fit (Decision_init fixture_table [''maxmax'', ''maxmin'', ''bogus'', ''ev''])) =
     Some (UnknownCriterion ''bogus'') \<and>
   results (snd (fit (Decision_init fixture_table [''maxmax'', ''maxmin'', ''bogus'', ''ev''])))
     ''maxmax'' \<noteq> None \<and>
   results (snd (fit (Decision_init fixture_table [''maxmax'', ''maxmin'', ''bogus'', ''ev''])))
     ''maxmin'' \<noteq> None"
proof -
  let ?s = "Decision_init fixture_table [''maxmax'', ''maxmin'', ''bogus'', ''ev'']"
  have run: "fst (fit_loop [''maxmax'', ''maxmin''] ?s) = None"
    by (simp add: fixture_defs fit_branch_defs np_defs)
  then have h: "fit_loop [''maxmax'', ''maxmin''] ?s =
      (None, snd (fit_loop [''maxmax'', ''maxmin''] ?s))"
    by (simp add: prod_eq_iff)
  have c: "crit ?s = [''maxmax'', ''maxmin''] @ ''bogus'' # [''ev'']"
    by (simp add: fixture_defs)
  have b: "''bogus'' \<notin> set all_criteria" by (simp add: all_criteria_def)
  from fit_unknown_criterion_keeps_results [OF c b h] run show ?thesis by simp
qed

text \<open>
  C6 as stated fails, because \<open>fit\<close> stops at the first exception. On a table with no
  alternative (an input array holding only the probability row) \<open>maxmax\<close> ends in numpy's
  error for the \<open>argmax\<close> of an empty array; on the fixture, \<open>ev\<close> with no \<open>maxlik\<close> before
  it ends in the \<open>AttributeError\<close> of the \<open>ev\<close> branch. Neither run reaches the unsupported
  name.
\<close>

theorem fit_unknown_criterion_counterexample:
  "fst (fit (Decision_init ([], map IntLabel [0, 1, 2], fixture_prob, \<lparr>ncols = 3, rows = []\<rparr>)
          [''maxmax'', ''bogus''])) = Some EmptyReduction \<and>
   fst (fit (Decision_init fixture_table [''ev'', ''bogus''])) = Some (AttributeError ''mle_pf_'')"
  by (simp add: fit_def fixture_defs fit_branch_defs np_defs)

section \<open>Properties of \<open>compareAlt.irr\<close> and \<open>BCRatio\<close>\<close>

lemma floor_minus_one_real: "\<lfloor>- 1 :: real\<rfloor> = - 1"
  using floor_of_int [of "- 1", where ?'a = real] by simp

lemmas ee_defs = ppv_def dnpv_def npv_def PgivenF_def py_pow_def
  compareAlt_init_def equivalence_init_def bindE_def enumerate_eq_zip floor_minus_one_real
  power_divide

lemma irr_loop_done: "\<bar>v\<bar> \<le> threshold \<Longrightarrow> irr_loop c max_iter threshold itr r v = Inr r"
  by (subst irr_loop.simps) simp

lemma irr_loop_cap:
  "\<bar>v\<bar> > threshold \<Longrightarrow> real (Suc itr) > max_iter \<Longrightarrow>
   irr_loop c max_iter threshold itr r v = Inl TypeError"
  by (subst irr_loop.simps) simp

lemma irr_loop_step:
  "\<bar>v\<bar> > threshold \<Longrightarrow> real (Suc itr) \<le> max_iter \<Longrightarrow> ppv c (cf c) r = Inr pv \<Longrightarrow>
   dnpv pv (r / fract (eq c)) = Inr d \<Longrightarrow> d \<noteq> 0 \<Longrightarrow>
   irr_loop c max_iter threshold itr r v =
     irr_loop c max_iter threshold (Suc itr) (r - sum_list pv / d) (sum_list pv)"
  by (subst irr_loop.simps) simp

text \<open>
  C2 fails on the code. With the cash flows of \<open>tests/ee_test.py\<close>, the default guess and
  threshold and an iteration cap of 1, the second pass of the loop is past the cap and
  \<open>irr\<close> ends in the \<open>TypeError\<close> of \<open>str + float\<close>: no diagnostic value comes back.
\<close>

theorem irr_past_cap_raises:
  "irr (compareAlt_init [- 1000, 200, 300, 400, 500] End True) None 1 (1 / 100000) = Inl TypeError"
proof -
  let ?c = "compareAlt_init [-1000, 200, 300, 400, 500] End True"
  have g: "irr_guess ?c None = Inr (5 / 7)" by (simp add: irr_guess_def ee_defs)
  have p: "ppv ?c (cf ?c) (5 / 7) = Inr [- 1000, 350 / 3, 1225 / 12, 8575 / 108, 300125 / 5184]"
    by (simp add: ee_defs upt_rec)
  have d: "dnpv [- 1000, 350 / 3, 1225 / 12, 8575 / 108, 300125 / 5184] (5 / 7 / fract (eq ?c))
      = Inr (- 7 / 12 * (350 / 3 + 2 * (1225 / 12) + 3 * (8575 / 108) + 4 * (300125 / 5184)))"
    by (simp add: ee_defs upt_rec)
  have "irr_loop ?c 1 (1 / 100000) 0 (5 / 7) (sum_list [- 1000, 350 / 3, 1225 / 12, 8575 / 108, 300125 / 5184])
     = Inl TypeError"
    by (subst irr_loop_step [OF _ _ p d]; (subst irr_loop_cap)?; simp)
  with g p show ?thesis by (simp add: irr_def bindE_def)
qed


lemma npv_loop_ppv:
  "map_err (\<lambda>(period, flow). bindE (PgivenF q i (real period)) (\<lambda>f. Inr (flow * f))) (enumerate n fl)
     = Inr pv \<Longrightarrow>
   npv_loop q i acc (enumerate n fl) = Inr (acc + sum_list pv)"
proof (induction fl arbitrary: n acc pv)
  case Nil
  then show ?case by auto
next
  case (Cons x fl)
  from Cons.prems obtain f ps where
    f: "PgivenF q i (real n) = Inr f" and
    ps: "map_err (\<lambda>(period, flow). bindE (PgivenF q i (real period)) (\<lambda>f. Inr (flow * f)))
           (enumerate (Suc n) fl) = Inr ps" and
    pv: "pv = x * f # ps"
    by (auto simp: bindE_def split: sum.splits)
  from Cons.IH [OF ps, of "acc + x * f"] f pv show ?case by simp
qed

lemma npv_ppv: "ppv c (cf c) r = Inr pv \<Longrightarrow> npv c r = Inr (sum_list pv)"
  using npv_loop_ppv [of "eq c" r 0 "cf c" pv 0] by (simp add: ppv_def npv_def)

lemma irr_loop_tested:
  "irr_loop c max_iter threshold itr r v = Inr out \<Longrightarrow>
   \<exists>r'. npv c r' = Inr v \<and> (r = r' \<or> newton_step c r' r) \<Longrightarrow>
   \<exists>r' p. npv c r' = Inr p \<and> \<bar>p\<bar> \<le> threshold \<and> (out = r' \<or> newton_step c r' out)"
proof (induction c max_iter threshold itr r v rule: irr_loop.induct)
  case (1 c max_iter threshold itr r v)
  show ?case
  proof (cases "\<bar>v\<bar> > threshold")
    case False
    with "1.prems"(1) have "out = r" by (simp add: irr_loop.simps [of c max_iter threshold itr r v])
    moreover from "1.prems"(2) obtain r' where "npv c r' = Inr v" "r = r' \<or> newton_step c r' r"
      by blast
    moreover from False have "\<bar>v\<bar> \<le> threshold" by simp
    ultimately show ?thesis by blast
  next
    case True
    with "1.prems"(1) obtain pv d where
      cap: "\<not> max_iter < real (Suc itr)" and
      pv: "ppv c (cf c) r = Inr pv" and
      d: "dnpv pv (r / fract (eq c)) = Inr d" "d \<noteq> 0" and
      rec: "irr_loop c max_iter threshold (Suc itr) (r - sum_list pv / d) (sum_list pv) = Inr out"
      by (auto simp: irr_loop.simps [of c max_iter threshold itr r v] split: if_splits sum.splits)
    have "npv c r = Inr (sum_list pv)" by (rule npv_ppv [OF pv])
    moreover have "newton_step c r (r - sum_list pv / d)"
      using pv d by (auto simp: newton_step_def)
    ultimately have inv: "\<exists>r'. npv c r' = Inr (sum_list pv) \<and>
        (r - sum_list pv / d = r' \<or> newton_step c r' (r - sum_list pv / d))" by blast
    from "1.IH" [OF True cap pv d(1) d(2) rec inv] show ?thesis .
  qed
qed

text \<open>
  C5, as amended. When \<open>irr\<close> returns a rate \<open>r\<close>, the loop has tested an estimate \<open>r'\<close>
  whose present worth (the method \<open>npv\<close>) is within the threshold in absolute value, and
  \<open>r\<close> is \<open>r'\<close> itself or the Newton update made from \<open>r'\<close> in the same pass. The present
  worth at \<open>r\<close> is not tested.
\<close>

theorem irr_tested_estimate:
  assumes "irr c guess max_iter threshold = Inr r"
  shows "\<exists>r' p. npv c r' = Inr p \<and> \<bar>p\<bar> \<le> threshold \<and> (r = r' \<or> newton_step c r' r)"
proof -
  from assms obtain r0 pv where
    pv: "ppv c (cf c) r0 = Inr pv" and
    run: "irr_loop c max_iter threshold 0 r0 (sum_list pv) = Inr r"
    by (auto simp: irr_def bindE_def split: sum.splits)
  have "\<exists>r'. npv c r' = Inr (sum_list pv) \<and> (r0 = r' \<or> newton_step c r' r0)"
    using npv_ppv [OF pv] by blast
  with run show ?thesis by (rule irr_loop_tested)
qed

lemma irr_example_run:
  "irr (compareAlt_init [- 4, 4, 6, - 6] End True) None 10000000 (1 / 10) = Inr (- 89 / 121)"
proof -
  let ?c = "compareAlt_init [- 4, 4, 6, - 6] End True"
  have g: "irr_guess ?c None = Inr 1" by (simp add: irr_guess_def ee_defs)
  have p0: "ppv ?c (cf ?c) 1 = Inr [- 4, 2, 3 / 2, - 3 / 4]"
    by (simp add: ee_defs upt_rec)
  have d0: "dnpv [- 4, 2, 3 / 2, - 3 / 4] (1 / fract (eq ?c)) = Inr (- 11 / 8)"
    by (simp add: ee_defs upt_rec)
  have p1: "ppv ?c (cf ?c) (1 / 11) = Inr [- 4, 11 / 3, 121 / 24, - 1331 / 288]"
    by (simp add: ee_defs upt_rec)
  have d1: "dnpv [- 4, 11 / 3, 121 / 24, - 1331 / 288] (1 / 11 / fract (eq ?c)) = Inr (121 / 1152)"
    by (simp add: ee_defs upt_rec)
  have s0: "sum_list [- 4, 2, 3 / 2, - 3 / 4 :: real] = - 5 / 4" by simp
  have s1: "sum_list [- 4, 11 / 3, 121 / 24, - 1331 / 288 :: real] = 25 / 288" by simp
  have "irr_loop ?c 10000000 (1 / 10) 0 1 (- 5 / 4) = irr_loop ?c 10000000 (1 / 10) 1 (1 / 11) (- 5 / 4)"
    using irr_loop_step [of "1 / 10" "- 5 / 4" 0 10000000 ?c 1, OF _ _ p0 d0] by (simp add: s0)
  also have "\<dots> = irr_loop ?c 10000000 (1 / 10) 2 (- 89 / 121) (25 / 288)"
    using irr_loop_step [of "1 / 10" "- 5 / 4" 1 10000000 ?c "1 / 11", OF _ _ p1 d1]
    by (simp add: s1 numeral_2_eq_2)
  also have "\<dots> = Inr (- 89 / 121)" by (rule irr_loop_done) simp
  finally show ?thesis using g p0 by (simp add: irr_def bindE_def s0)
qed

lemma irr_example_npv: "npv (compareAlt_init [- 4, 4, 6, - 6] End True) (- 89 / 121) = Inr (- 3726875 / 16384)"
  by (simp add: ee_defs upt_rec)

theorem irr_tested_estimate_witness:
  "irr (compareAlt_init [- 4, 4, 6, - 6] End True) None 10000000 (1 / 10) = Inr (- 89 / 121) \<and>
   (\<exists>r' p. npv (compareAlt_init [- 4, 4, 6, - 6] End True) r' = Inr p \<and> \<bar>p\<bar> \<le> 1 / 10 \<and>
      (- 89 / 121 = r' \<or> newton_step (compareAlt_init [- 4, 4, 6, - 6] End True) r' (- 89 / 121)))"
  using irr_tested_estimate [OF irr_example_run] irr_example_run by simp

text \<open>
  C5 as stated fails. For the cash flows \<open>[-4, 4, 6, -6]\<close>, the default guess and a
  threshold of 0.1, \<open>irr\<close> returns \<open>-89/121\<close> after two passes: the estimate \<open>1/11\<close> has the
  present worth \<open>25/288\<close>, within the threshold, and the rate returned is one Newton step
  further, where the present worth is about \<open>-227.5\<close>.
\<close>

theorem irr_round_trip_counterexample:
  "irr (compareAlt_init [- 4, 4, 6, - 6] End True) None 10000000 (1 / 10) = Inr (- 89 / 121) \<and>
   npv (compareAlt_init [- 4, 4, 6, - 6] End True) (- 89 / 121) = Inr (- 3726875 / 16384) \<and>
   \<not> \<bar>- 3726875 / 16384 :: real\<bar> \<le> 1 / 10"
  using irr_example_run irr_example_npv by simp

text \<open>
  C4 fails on the code. With a shared rate and \<open>ben_rate\<close> but no \<open>cost_rate\<close>, \<open>__init__\<close>
  issues the warning and then raises the \<open>ValueError\<close> of the last check, which looks at
  the arguments and not at the rates just resolved.
\<close>

theorem BCRatio_init_rate_and_ben_rate:
  "BCRatio_init [0, 200, 500, 700, 800] [2000, 0, 0, 0, 500] (Some (1 / 10)) (Some (1 / 10)) None
     End True = ([RateOverrideWarning], Inl RateValueError)"
  by (simp add: BCRatio_init_def truthy_def)

section \<open>Properties of \<open>cfCommon\<close>\<close>

lemma cf_step_spec:
  assumes D: "dicts h d = Some es" and K: "map_of es k = Some a"
    and V: "lists h a = Some v" "v \<noteq> []" and N: "i < length n" "n ! i \<noteq> 0"
  shows "cf_step d l n i k h =
     Inr (h\<lparr>lists := (lists h)(a \<mapsto> fold_last v, fresh h \<mapsto> common_series l (n ! i) v),
            fresh := Suc (fresh h),
            dicts := (dicts h)(d \<mapsto> AList.update k (fresh h) es)\<rparr>)"
proof -
  have ne: "fold_last v \<noteq> []" "extend l (n ! i) (fold_last v) \<noteq> []"
    using V(2) by (simp_all add: fold_last_def extend_def)
  show ?thesis
    using D K V N ne
    by (simp add: cf_step_def bindE_def getitem_def deref_def first_of_def last_of_def set_last_def
        new_list_def setitem_def update_conv' Let_def fold_last_def extend_def restore_last_def
        common_series_def)
qed

lemma py_int_of_int: "py_int (of_int m) = m"
  by (simp add: py_int_def)

lemma reps_exact:
  assumes "hz dvd l" and "hz \<noteq> 0"
  shows "py_int (real_of_int l / real_of_int hz - 1) = l div hz - 1"
proof -
  have "real_of_int l / real_of_int hz - 1 = of_int (l div hz - 1)"
    using assms by (simp add: real_of_int_div)
  then show ?thesis by (simp only: py_int_of_int)
qed

lemma length_list_times: "length (list_times xs k) = nat k * length xs"
  by (simp add: list_times_def length_concat sum_list_replicate)

lemma length_common_series:
  assumes "0 < hz" and "hz dvd l" and "0 < l" and "hz = int (length v) - 1"
  shows "int (length (common_series l hz v)) = l + 1"
proof -
  obtain q where q: "l = hz * q" using assms(2) by (auto simp: dvd_def)
  with assms(1,3) have qpos: "0 < q" by (simp add: zero_less_mult_iff)
  have reps: "py_int (real_of_int l / real_of_int hz - 1) = q - 1"
    using reps_exact [OF assms(2)] assms(1) q by simp
  have tl: "int (length (tl v)) = hz" using assms(1,4) by simp
  have fl: "length (fold_last v) = length v" "length (tl (fold_last v)) = length (tl v)"
    by (simp_all add: fold_last_def)
  have "length (common_series l hz v) = length (fold_last v) + nat (q - 1) * length (tl (fold_last v))"
    by (simp add: common_series_def restore_last_def extend_def length_list_times reps
        del: length_tl)
  then have "int (length (common_series l hz v)) = int (length v) + int (nat (q - 1) * length (tl v))"
    by (simp only: fl of_nat_add)
  also have "\<dots> = (hz + 1) + (q - 1) * hz"
    using qpos tl assms(4) by (simp del: length_tl)
  also have "\<dots> = l + 1" using q by (simp add: algebra_simps)
  finally show ?thesis .
qed

lemma update_keys_same: "map_of es k = Some a \<Longrightarrow> map fst (AList.update k b es) = map fst es"
  by (induction es) (auto split: if_splits)

lemma cf_loop_lengths:
  assumes "dicts h d = Some es" and "distinct ks" and "list_all2 (bound_at h es) ks (drop j n)"
    and "0 < l" and "\<forall>hz \<in> set (drop j n). 0 < hz \<and> hz dvd l"
  shows "\<exists>h' es'. cf_loop d l n (enumerate j ks) h = Inr h' \<and> dicts h' d = Some es' \<and>
      map fst es' = map fst es \<and> fresh h \<le> fresh h' \<and>
      (\<forall>k. k \<notin> set ks \<longrightarrow> map_of es' k = map_of es k) \<and>
      (\<forall>a v. a < fresh h \<longrightarrow> lists h a = Some v \<longrightarrow>
         (\<exists>v'. lists h' a = Some v' \<and> length v' = length v)) \<and>
      (\<forall>k \<in> set ks. \<exists>a' v'. map_of es' k = Some a' \<and> lists h' a' = Some v' \<and>
         int (length v') = l + 1)"
  using assms
proof (induction ks arbitrary: h es j)
  case Nil
  then show ?case by simp
next
  case (Cons k ks)
  from Cons.prems(3) obtain hz rest where
    dr: "drop j n = hz # rest" and bk: "bound_at h es k hz" and
    brest: "list_all2 (bound_at h es) ks rest"
    by (auto simp: list_all2_Cons1)
  from dr have j: "j < length n" by (cases "j < length n") auto
  from dr j have nj: "n ! j = hz" and rest: "rest = drop (Suc j) n"
    by (simp_all add: Cons_nth_drop_Suc [symmetric])
  from Cons.prems(5) dr have hz: "0 < hz" "hz dvd l" by auto
  from bk obtain a v where
    a: "map_of es k = Some a" "lists h a = Some v" "a < fresh h" "hz = int (length v) - 1"
    by (auto simp: bound_at_def)
  from a(4) hz(1) have vne: "v \<noteq> []" by auto
  let ?es1 = "AList.update k (fresh h) es"
  let ?h1 = "h\<lparr>lists := (lists h)(a \<mapsto> fold_last v, fresh h \<mapsto> common_series l (n ! j) v),
            fresh := Suc (fresh h), dicts := (dicts h)(d \<mapsto> ?es1)\<rparr>"
  have step: "cf_step d l n j k h = Inr ?h1"
    using cf_step_spec [OF Cons.prems(1) a(1,2) vne j] hz(1) nj by simp
  have d1: "dicts ?h1 d = Some ?es1" by simp
  have keep: "\<exists>v1. lists ?h1 a0 = Some v1 \<and> length v1 = length v0"
    if "a0 < fresh h" "lists h a0 = Some v0" for a0 v0
    using that a(2) by (auto simp: fold_last_def)
  have b1: "list_all2 (bound_at ?h1 ?es1) ks (drop (Suc j) n)"
    unfolding rest [symmetric]
  proof (rule list.rel_mono_strong [OF brest])
    fix k' hz'
    assume k': "k' \<in> set ks" and b: "bound_at h es k' hz'"
    from k' Cons.prems(2) have ne: "k' \<noteq> k" by auto
    from b obtain a' v' where
      a': "map_of es k' = Some a'" "lists h a' = Some v'" "a' < fresh h" "hz' = int (length v') - 1"
      by (auto simp: bound_at_def)
    from keep [OF a'(3) a'(2)] obtain v1 where v1: "lists ?h1 a' = Some v1" "length v1 = length v'"
      by blast
    have "map_of ?es1 k' = Some a'" using ne a'(1) by (simp add: update_conv')
    with v1 a'(3,4) show "bound_at ?h1 ?es1 k' hz'"
      unfolding bound_at_def by (intro exI [of _ a'] exI [of _ v1]) simp
  qed
  from Cons.prems(2) have dks: "distinct ks" by simp
  from Cons.prems(5) dr rest have all: "\<forall>hz \<in> set (drop (Suc j) n). 0 < hz \<and> hz dvd l" by auto
  from Cons.IH [OF d1 dks b1 Cons.prems(4) all] obtain h' es' where
    run: "cf_loop d l n (enumerate (Suc j) ks) ?h1 = Inr h'" and
    d': "dicts h' d = Some es'" and
    keys: "map fst es' = map fst ?es1" and
    fr: "fresh ?h1 \<le> fresh h'" and
    other: "\<forall>k0. k0 \<notin> set ks \<longrightarrow> map_of es' k0 = map_of ?es1 k0" and
    len: "\<forall>a0 v0. a0 < fresh ?h1 \<longrightarrow> lists ?h1 a0 = Some v0 \<longrightarrow>
         (\<exists>v'. lists h' a0 = Some v' \<and> length v' = length v0)" and
    fin: "\<forall>k0 \<in> set ks. \<exists>a' v'. map_of es' k0 = Some a' \<and> lists h' a' = Some v' \<and>
         int (length v') = l + 1"
    by blast
  have c1: "cf_loop d l n (enumerate j (k # ks)) h = Inr h'"
    using step run by (simp add: bindE_def)
  have c3: "map fst es' = map fst es" using keys update_keys_same [OF a(1)] by simp
  have c4: "fresh h \<le> fresh h'" using fr by simp
  have c5: "\<forall>k0. k0 \<notin> set (k # ks) \<longrightarrow> map_of es' k0 = map_of es k0"
    using other by (simp add: update_conv')
  have c6: "\<forall>a0 v0. a0 < fresh h \<longrightarrow> lists h a0 = Some v0 \<longrightarrow>
         (\<exists>v'. lists h' a0 = Some v' \<and> length v' = length v0)"
  proof (intro allI impI)
    fix a0 v0
    assume a0: "a0 < fresh h" "lists h a0 = Some v0"
    from keep [OF a0] obtain v1 where v1: "lists ?h1 a0 = Some v1" "length v1 = length v0" by blast
    from a0(1) have "a0 < fresh ?h1" by simp
    with len v1(1) obtain v' where "lists h' a0 = Some v'" "length v' = length v1" by blast
    with v1(2) show "\<exists>v'. lists h' a0 = Some v' \<and> length v' = length v0" by simp
  qed
  have new: "\<exists>a' v'. map_of es' k = Some a' \<and> lists h' a' = Some v' \<and> int (length v') = l + 1"
  proof -
    from Cons.prems(2) have "k \<notin> set ks" by simp
    with other have m: "map_of es' k = Some (fresh h)" by (simp add: update_conv')
    have l1: "lists ?h1 (fresh h) = Some (common_series l hz v)" using nj by simp
    have "fresh h < fresh ?h1" by simp
    with len l1 obtain v' where
      v': "lists h' (fresh h) = Some v'" "length v' = length (common_series l hz v)" by blast
    from length_common_series [OF hz Cons.prems(4) a(4)] v'(2)
    have "int (length v') = l + 1" by simp
    with m v'(1) show ?thesis by blast
  qed
  have c7: "\<forall>k0 \<in> set (k # ks). \<exists>a' v'. map_of es' k0 = Some a' \<and> lists h' a' = Some v' \<and>
         int (length v') = l + 1"
    using new fin by auto
  from c1 d' c3 c4 c5 c6 c7 show ?case by blast
qed

lemma map_err_map:
  "(\<And>x. x \<in> set xs \<Longrightarrow> f x = Inr (g x)) \<Longrightarrow> map_err f xs = Inr (map g xs)"
  by (induction xs) auto

lemma lcm_loop_fold:
  "0 < l \<Longrightarrow> (\<And>x. x \<in> set ns \<Longrightarrow> 0 < x) \<Longrightarrow> lcm_loop l ns = Inr (fold lcm ns l)"
proof (induction ns arbitrary: l)
  case Nil
  show ?case by simp
next
  case (Cons x ns)
  have x: "0 < x" using Cons.prems(2) by simp
  have g: "gcd l x \<noteq> 0" using Cons.prems(1) by simp
  have gp: "0 < gcd l x" using g gcd_ge_0_int [of l x] by linarith
  have "0 \<le> l * x" using Cons.prems(1) x by simp
  then have nn: "0 \<le> l * x div gcd l x" using gp by (simp add: pos_imp_zdiv_nonneg_iff)
  have "lcm l x = \<bar>l * x div gcd l x\<bar>" by (simp add: lcm_gcd)
  with nn have e: "l * x div gcd l x = lcm x l" by (simp add: lcm.commute)
  have p: "0 < lcm x l" using Cons.prems(1) x by (simp add: lcm_pos_int)
  have "lcm_loop (lcm x l) ns = Inr (fold lcm ns (lcm x l))"
    using Cons.IH [OF p] Cons.prems(2) by simp
  with g e show ?case by simp
qed

lemma lcm_loop_Lcm:
  assumes "\<And>x. x \<in> set ns \<Longrightarrow> 0 < x"
  shows "lcm_loop 1 ns = Inr (Lcm (set ns))"
  using lcm_loop_fold [of 1 ns] assms by (simp add: Lcm_set_eq_fold)

lemma Lcm_pos_list:
  assumes "\<And>x. x \<in> set ns \<Longrightarrow> 0 < (x::int)"
  shows "0 < Lcm (set ns)"
proof -
  have "Lcm (set ns) \<noteq> 0" using assms by (auto simp: Lcm_0_iff)
  moreover have "0 \<le> Lcm (set ns)" by simp
  ultimately show ?thesis by linarith
qed

text \<open>
  C8. For a dictionary with distinct keys whose values are allocated lists of length at
  least 2, \<open>cfCommon\<close> returns, keeps the keys in their order, and leaves every key with a
  series of length \<open>LCM + 1\<close>, where \<open>LCM\<close> is the least common multiple of the horizons
  \<open>len(v) - 1\<close> of the series passed in.
\<close>

theorem cfCommon_common_length:
  assumes D: "dicts h d = Some es" and K: "distinct (map fst es)"
    and V: "\<forall>(k, a) \<in> set es. a < fresh h \<and> (\<exists>v. lists h a = Some v \<and> 2 \<le> length v)"
  shows "\<exists>h'. cfCommon d h = Inr (d, h') \<and> map fst (series h' d) = map fst (series h d) \<and>
     (\<forall>(k, v') \<in> set (series h' d).
        int (length v') = Lcm ((\<lambda>(k, v). int (length v) - 1) ` set (series h d)) + 1)"
proof -
  let ?len = "\<lambda>(k :: string, a). int (length (case lists h a of None \<Rightarrow> [] | Some v \<Rightarrow> v)) - 1"
  let ?n = "map ?len es"
  let ?l = "Lcm (set ?n)"
  have img: "(\<lambda>(k, v). int (length v) - 1) ` set (series h d) = set ?n"
    using D by (force simp: series_def image_iff split: prod.splits)
  have hor: "horizon h es = Inr ?n"
    unfolding horizon_def
  proof (rule map_err_map)
    fix x assume "x \<in> set es"
    with V show "(case x of (k, a) \<Rightarrow> bindE (deref h a) (\<lambda>v. Inr (int (length v) - 1))) = Inr (?len x)"
      by (auto simp: bindE_def deref_def)
  qed
  have pos: "0 < x" if "x \<in> set ?n" for x
    using that V by auto
  have lc: "lcm_loop 1 ?n = Inr ?l" using pos by (rule lcm_loop_Lcm)
  have lpos: "0 < ?l" using pos by (rule Lcm_pos_list)
  have dv: "\<forall>hz \<in> set (drop 0 ?n). 0 < hz \<and> hz dvd ?l"
    using pos by (auto intro: dvd_Lcm)
  have b: "list_all2 (bound_at h es) (map fst es) (drop 0 ?n)"
  proof -
    have "bound_at h es (fst x) (?len x)" if "x \<in> set es" for x
    proof -
      obtain k a where x: "x = (k, a)" by (cases x)
      with that K have m: "map_of es k = Some a" by simp
      from V that x obtain v where "a < fresh h" "lists h a = Some v" by auto
      with m x show ?thesis by (auto simp: bound_at_def)
    qed
    then show ?thesis by (simp add: list_all2_map1 list_all2_map2 list_all2_same)
  qed
  from cf_loop_lengths [OF D K b lpos dv] obtain h' es' where
    run: "cf_loop d ?l ?n (enumerate 0 (map fst es)) h = Inr h'" and
    d': "dicts h' d = Some es'" and
    keys: "map fst es' = map fst es" and
    fin: "\<forall>k \<in> set (map fst es). \<exists>a' v'. map_of es' k = Some a' \<and> lists h' a' = Some v' \<and>
         int (length v') = ?l + 1"
    by blast
  have c1: "cfCommon d h = Inr (d, h')"
    using D hor lc run by (simp add: cfCommon_def bindE_def)
  have c2: "map fst (series h' d) = map fst (series h d)"
    using D d' keys by (simp add: series_def comp_def case_prod_unfold)
  have c3: "\<forall>(k, v') \<in> set (series h' d). int (length v') = ?l + 1"
  proof (clarify)
    fix k v' assume "(k, v') \<in> set (series h' d)"
    with d' obtain a' where a': "(k, a') \<in> set es'"
      and v': "v' = (case lists h' a' of None \<Rightarrow> [] | Some v \<Rightarrow> v)"
      by (auto simp: series_def)
    from K keys have "distinct (map fst es')" by simp
    with a' have m: "map_of es' k = Some a'" by simp
    from a' keys have "k \<in> set (map fst es)" by (metis fst_conv image_eqI set_map)
    with fin obtain a2 v2 where "map_of es' k = Some a2" "lists h' a2 = Some v2"
      "int (length v2) = ?l + 1" by blast
    with m v' show "int (length v') = ?l + 1" by simp
  qed
  from c1 c2 c3 show ?thesis unfolding img by blast
qed

lemma cf_loop_contents:
  assumes "dicts h d = Some es" and "distinct ks" and "list_all2 (bound_at h es) ks (drop j n)"
    and "\<forall>hz \<in> set (drop j n). 0 < hz" and "inj_on (map_of es) (set ks)"
  shows "\<exists>h' es'. cf_loop d l n (enumerate j ks) h = Inr h' \<and> dicts h' d = Some es' \<and>
      map fst es' = map fst es \<and> fresh h \<le> fresh h' \<and>
      (\<forall>k. k \<notin> set ks \<longrightarrow> map_of es' k = map_of es k) \<and>
      (\<forall>a. a < fresh h \<longrightarrow> (\<forall>k \<in> set ks. map_of es k \<noteq> Some a) \<longrightarrow> lists h' a = lists h a) \<and>
      list_all2 (rebound h es h' es' l) ks (drop j n)"
  using assms
proof (induction ks arbitrary: h es j)
  case Nil
  then show ?case by simp
next
  case (Cons k ks)
  from Cons.prems(3) obtain hz rest where
    dr: "drop j n = hz # rest" and bk: "bound_at h es k hz" and
    brest: "list_all2 (bound_at h es) ks rest"
    by (auto simp: list_all2_Cons1)
  from dr have j: "j < length n" by (cases "j < length n") auto
  from dr j have nj: "n ! j = hz" and rest: "rest = drop (Suc j) n"
    by (simp_all add: Cons_nth_drop_Suc [symmetric])
  from Cons.prems(4) dr have hz: "0 < hz" by auto
  from bk obtain a v where
    a: "map_of es k = Some a" "lists h a = Some v" "a < fresh h" "hz = int (length v) - 1"
    by (auto simp: bound_at_def)
  from a(4) hz have vne: "v \<noteq> []" by auto
  from Cons.prems(2) have kn: "k \<notin> set ks" and dks: "distinct ks" by simp_all
  have others: "\<exists>a' v'. map_of es k' = Some a' \<and> lists h a' = Some v' \<and> a' < fresh h \<and> a' \<noteq> a"
    if "k' \<in> set ks" for k'
  proof -
    from that brest obtain hz' where "bound_at h es k' hz'"
      by (auto simp: in_set_conv_nth list_all2_conv_all_nth)
    then obtain a' v' where a': "map_of es k' = Some a'" "lists h a' = Some v'" "a' < fresh h"
      by (auto simp: bound_at_def)
    have "a' \<noteq> a"
    proof
      assume "a' = a"
      with a' a(1) have "map_of es k' = map_of es k" by simp
      from inj_onD [OF Cons.prems(5) this] that have "k' = k" by simp
      with that kn show False by simp
    qed
    with a' show ?thesis by blast
  qed
  let ?es1 = "AList.update k (fresh h) es"
  let ?h1 = "h\<lparr>lists := (lists h)(a \<mapsto> fold_last v, fresh h \<mapsto> common_series l (n ! j) v),
            fresh := Suc (fresh h), dicts := (dicts h)(d \<mapsto> ?es1)\<rparr>"
  have step: "cf_step d l n j k h = Inr ?h1"
    using cf_step_spec [OF Cons.prems(1) a(1,2) vne j] hz nj by simp
  have d1: "dicts ?h1 d = Some ?es1" by simp
  have m1: "map_of ?es1 k' = map_of es k'" if "k' \<in> set ks" for k'
    using that kn by (auto simp: update_conv')
  have b1: "list_all2 (bound_at ?h1 ?es1) ks (drop (Suc j) n)"
    unfolding rest [symmetric]
  proof (rule list.rel_mono_strong [OF brest])
    fix k' hz'
    assume k': "k' \<in> set ks" and b: "bound_at h es k' hz'"
    from others [OF k'] b obtain a' v' where
      a': "map_of es k' = Some a'" "lists h a' = Some v'" "a' < fresh h" "a' \<noteq> a"
        "hz' = int (length v') - 1"
      by (auto simp: bound_at_def)
    then have "lists ?h1 a' = Some v'" by simp
    with a' m1 [OF k'] show "bound_at ?h1 ?es1 k' hz'"
      unfolding bound_at_def by (intro exI [of _ a'] exI [of _ v']) simp
  qed
  from Cons.prems(4) dr rest have all: "\<forall>hz \<in> set (drop (Suc j) n). 0 < hz" by auto
  have inj1: "inj_on (map_of ?es1) (set ks)"
  proof (rule inj_onI)
    fix x y assume "x \<in> set ks" "y \<in> set ks" "map_of ?es1 x = map_of ?es1 y"
    with m1 have "map_of es x = map_of es y" by simp
    from inj_onD [OF Cons.prems(5) this] \<open>x \<in> set ks\<close> \<open>y \<in> set ks\<close> show "x = y" by simp
  qed
  from Cons.IH [OF d1 dks b1 all inj1] obtain h' es' where
    run: "cf_loop d l n (enumerate (Suc j) ks) ?h1 = Inr h'" and
    d': "dicts h' d = Some es'" and
    keys: "map fst es' = map fst ?es1" and
    fr: "fresh ?h1 \<le> fresh h'" and
    other: "\<forall>k0. k0 \<notin> set ks \<longrightarrow> map_of es' k0 = map_of ?es1 k0" and
    same: "\<forall>a0. a0 < fresh ?h1 \<longrightarrow> (\<forall>k0 \<in> set ks. map_of ?es1 k0 \<noteq> Some a0) \<longrightarrow>
         lists h' a0 = lists ?h1 a0" and
    fin: "list_all2 (rebound ?h1 ?es1 h' es' l) ks (drop (Suc j) n)"
    by blast
  have untouched: "lists h' a0 = lists ?h1 a0"
    if "a0 < Suc (fresh h)" "\<And>k0. k0 \<in> set ks \<Longrightarrow> map_of es k0 \<noteq> Some a0" for a0
    using same that m1 by simp
  have c1: "cf_loop d l n (enumerate j (k # ks)) h = Inr h'"
    using step run by (simp add: bindE_def)
  have c3: "map fst es' = map fst es" using keys update_keys_same [OF a(1)] by simp
  have c4: "fresh h \<le> fresh h'" using fr by simp
  have c5: "\<forall>k0. k0 \<notin> set (k # ks) \<longrightarrow> map_of es' k0 = map_of es k0"
    using other by (simp add: update_conv')
  have c6: "\<forall>a0. a0 < fresh h \<longrightarrow> (\<forall>k0 \<in> set (k # ks). map_of es k0 \<noteq> Some a0) \<longrightarrow>
      lists h' a0 = lists h a0"
  proof (intro allI impI)
    fix a0 assume a0: "a0 < fresh h" "\<forall>k0 \<in> set (k # ks). map_of es k0 \<noteq> Some a0"
    then have "a0 \<noteq> a" using a(1) by auto
    moreover have "lists h' a0 = lists ?h1 a0" using a0 by (intro untouched) auto
    ultimately show "lists h' a0 = lists h a0" using a0(1) by simp
  qed
  have na: "map_of es k0 \<noteq> Some a" if "k0 \<in> set ks" for k0
    using others [OF that] by auto
  have nf: "map_of es k0 \<noteq> Some (fresh h)" if "k0 \<in> set ks" for k0
    using others [OF that] by auto
  have hd: "rebound h es h' es' l k hz"
  proof -
    have "lists h' a = lists ?h1 a"
      using a(3) na by (intro untouched) auto
    then have la: "lists h' a = Some (fold_last v)" using a(3) by simp
    have "lists h' (fresh h) = lists ?h1 (fresh h)"
      using nf by (intro untouched) auto
    then have ln: "lists h' (fresh h) = Some (common_series l hz v)" using nj by simp
    from other kn have m: "map_of es' k = Some (fresh h)" by (simp add: update_conv')
    from fr have "fresh h < fresh h'" by simp
    with a la ln m show ?thesis unfolding rebound_def by blast
  qed
  have tl: "list_all2 (rebound h es h' es' l) ks rest"
    unfolding rest
  proof (rule list.rel_mono_strong [OF fin])
    fix k' hz'
    assume k': "k' \<in> set ks" and r: "rebound ?h1 ?es1 h' es' l k' hz'"
    from others [OF k'] obtain a' v' where
      a': "map_of es k' = Some a'" "lists h a' = Some v'" "a' < fresh h" "a' \<noteq> a" by blast
    then have l1: "lists ?h1 a' = Some v'" by simp
    from r m1 [OF k'] a'(1) l1 obtain a2 where
      "hz' = int (length v') - 1" "lists h' a' = Some (fold_last v')"
      "map_of es' k' = Some a2" "fresh ?h1 \<le> a2" "a2 < fresh h'"
      "lists h' a2 = Some (common_series l hz' v')"
      unfolding rebound_def by auto
    with a'(1,2) show "rebound h es h' es' l k' hz'"
      unfolding rebound_def by (intro exI [of _ a'] exI [of _ v'] exI [of _ a2]) simp
  qed
  from hd tl have c7: "list_all2 (rebound h es h' es' l) (k # ks) (drop j n)"
    unfolding dr by simp
  from c1 d' c3 c4 c5 c6 c7 show ?case by blast
qed

text \<open>
  C10, as amended. When no two keys share a list object, \<open>cfCommon\<close> returns the dictionary
  object it was given, with the same keys. Of the caller's list at a key only the last
  element is overwritten (by first plus last): the list is not extended. The key is bound
  to a list object allocated during the call, which holds the series extended to the
  common horizon with its last element adjusted.
\<close>

theorem cfCommon_rebinds_keys:
  assumes D: "dicts h d = Some es" and K: "distinct (map fst es)" and A: "distinct (map snd es)"
    and V: "\<forall>(k, a) \<in> set es. a < fresh h \<and> (\<exists>v. lists h a = Some v \<and> 2 \<le> length v)"
  shows "\<exists>h' es'. cfCommon d h = Inr (d, h') \<and> dicts h' d = Some es' \<and> map fst es' = map fst es \<and>
     (\<forall>(k, a) \<in> set es. \<exists>v a'.
        lists h a = Some v \<and> lists h' a = Some (fold_last v) \<and>
        map_of es' k = Some a' \<and> fresh h \<le> a' \<and>
        lists h' a' =
          Some (common_series (Lcm ((\<lambda>(k, v). int (length v) - 1) ` set (series h d)))
                  (int (length v) - 1) v))"
proof -
  let ?len = "\<lambda>(k :: string, a). int (length (case lists h a of None \<Rightarrow> [] | Some v \<Rightarrow> v)) - 1"
  let ?n = "map ?len es"
  let ?l = "Lcm (set ?n)"
  have img: "(\<lambda>(k, v). int (length v) - 1) ` set (series h d) = set ?n"
    using D by (force simp: series_def image_iff split: prod.splits)
  have hor: "horizon h es = Inr ?n"
    unfolding horizon_def
  proof (rule map_err_map)
    fix x assume "x \<in> set es"
    with V show "(case x of (k, a) \<Rightarrow> bindE (deref h a) (\<lambda>v. Inr (int (length v) - 1))) = Inr (?len x)"
      by (auto simp: bindE_def deref_def)
  qed
  have pos: "0 < x" if "x \<in> set ?n" for x
    using that V by auto
  have lc: "lcm_loop 1 ?n = Inr ?l" using pos by (rule lcm_loop_Lcm)
  have dv: "\<forall>hz \<in> set (drop 0 ?n). 0 < hz" using pos by auto
  have b: "list_all2 (bound_at h es) (map fst es) (drop 0 ?n)"
  proof -
    have "bound_at h es (fst x) (?len x)" if "x \<in> set es" for x
    proof -
      obtain k a where x: "x = (k, a)" by (cases x)
      with that K have m: "map_of es k = Some a" by simp
      from V that x obtain v where "a < fresh h" "lists h a = Some v" by auto
      with m x show ?thesis by (auto simp: bound_at_def)
    qed
    then show ?thesis by (simp add: list_all2_map1 list_all2_map2 list_all2_same)
  qed
  have inj: "inj_on (map_of es) (set (map fst es))"
  proof (rule inj_onI)
    fix x y assume x: "x \<in> set (map fst es)" and y: "y \<in> set (map fst es)"
      and e: "map_of es x = map_of es y"
    from x K obtain a where xa: "(x, a) \<in> set es" "map_of es x = Some a" by auto
    with e have "map_of es y = Some a" by simp
    then have "(y, a) \<in> set es" by (rule map_of_SomeD)
    moreover from A have "inj_on snd (set es)" by (simp add: distinct_map)
    ultimately have "(x, a) = (y, a)" using xa(1) by (intro inj_onD [of snd "set es"]) simp_all
    then show "x = y" by simp
  qed
  from cf_loop_contents [OF D K b dv inj, of ?l] obtain h' es' where
    run: "cf_loop d ?l ?n (enumerate 0 (map fst es)) h = Inr h'" and
    d': "dicts h' d = Some es'" and
    keys: "map fst es' = map fst es" and
    fin: "list_all2 (rebound h es h' es' ?l) (map fst es) (drop 0 ?n)"
    by blast
  have c1: "cfCommon d h = Inr (d, h')"
    using D hor lc run by (simp add: cfCommon_def bindE_def)
  from fin have each: "\<forall>x \<in> set es. rebound h es h' es' ?l (fst x) (?len x)"
    by (simp add: list_all2_map1 list_all2_map2 list_all2_same)
  have c4: "\<forall>(k, a) \<in> set es. \<exists>v a'.
        lists h a = Some v \<and> lists h' a = Some (fold_last v) \<and>
        map_of es' k = Some a' \<and> fresh h \<le> a' \<and>
        lists h' a' = Some (common_series ?l (int (length v) - 1) v)"
  proof (clarify)
    fix k a assume ka: "(k, a) \<in> set es"
    with K have m: "map_of es k = Some a" by simp
    from each ka have "rebound h es h' es' ?l k (?len (k, a))" by fastforce
    with m show "\<exists>v a'.
        lists h a = Some v \<and> lists h' a = Some (fold_last v) \<and>
        map_of es' k = Some a' \<and> fresh h \<le> a' \<and>
        lists h' a' = Some (common_series ?l (int (length v) - 1) v)"
      unfolding rebound_def by auto
  qed
  from c1 d' keys c4 show ?thesis unfolding img by blast
qed

lemma example_in: 
  "dicts example_heap 2 = Some [(''cf1'', 0), (''cf2'', 1)]"
  "distinct (map fst [(''cf1'' :: string, 0 :: addr), (''cf2'', 1)])"
  "distinct (map snd [(''cf1'' :: string, 0 :: addr), (''cf2'', 1)])"
  "\<forall>(k, a) \<in> set [(''cf1'', 0), (''cf2'', 1)].
     a < fresh example_heap \<and> (\<exists>v. lists example_heap a = Some v \<and> 2 \<le> length v)"
  by (simp_all add: example_heap_def)

lemma example_lcm:
  "Lcm ((\<lambda>(k, v). int (length v) - 1) ` set (series example_heap 2)) = 12"
proof -
  have "(\<lambda>(k, v). int (length v) - 1) ` set (series example_heap 2) = {3, 4}"
    by (auto simp: series_def example_heap_def)
  moreover have "lcm (3 :: int) 4 = 12" by code_simp
  ultimately show ?thesis by simp
qed

text \<open>The docstring's example: lengths 4 and 5, horizons 3 and 4, both series come out
  with length 13.\<close>

theorem cfCommon_common_length_witness:
  "\<exists>h'. cfCommon 2 example_heap = Inr (2, h') \<and>
      map fst (series h' 2) = [''cf1'', ''cf2''] \<and>
      (\<forall>(k, v') \<in> set (series h' 2). int (length v') = 13)"
  using cfCommon_common_length [OF example_in(1,2,4)] by (simp add: example_lcm) (simp add: series_def example_heap_def)

lemma replicate_small: "replicate 3 x = [x, x, x]" "replicate 2 x = [x, x]"
  by (simp_all add: numeral_3_eq_3 numeral_2_eq_2)

lemma example_run: "cfCommon 2 example_heap = Inr (2, example_result)"
proof -
  have r1: "py_int (real_of_int 12 / real_of_int 3 - 1) = 3" by (simp add: py_int_def)
  have r2: "py_int (real_of_int 12 / real_of_int 4 - 1) = 2" by (simp add: py_int_def)
  have g1: "gcd (1 :: int) 3 = 1" by simp
  have g2: "gcd (3 :: int) 4 = 1" by code_simp
  have n3: "nat 3 = Suc (Suc (Suc 0))" "nat 2 = Suc (Suc 0)" by simp_all
  have h: "horizon example_heap [(''cf1'', 0), (''cf2'', 1)] = Inr [3, 4]"
    by (simp add: horizon_def bindE_def deref_def example_heap_def)
  have l: "lcm_loop 1 [3, 4] = Inr 12" by (simp add: g1 g2)
  have "cf_loop 2 12 [3, 4] (enumerate 0 (map fst [(''cf1'', 0 :: addr), (''cf2'', 1)])) example_heap
    = Inr example_result"
    apply (simp add: cf_step_def bindE_def getitem_def deref_def first_of_def last_of_def set_last_def
        new_list_def setitem_def list_times_def Let_def example_heap_def py_int_def replicate_small example_result_def)
    apply (rule ext)
    apply simp
    done
  with h l show ?thesis by (simp add: cfCommon_def bindE_def example_heap_def)
qed

text \<open>
  C10 as stated fails. On the docstring's example the caller's list at address 0 has four
  elements after the call, not thirteen, and \<open>cf1\<close> is bound to the list at address 3,
  which did not exist before the call.
\<close>

theorem cfCommon_in_place_counterexample:
  "cfCommon 2 example_heap = Inr (2, example_result) \<and>
   lists example_heap 0 = Some [- 1000, 300, 400, 500] \<and>
   lists example_result 0 = Some [- 1000, 300, 400, - 500] \<and>
   dicts example_result 2 = Some [(''cf1'', 3), (''cf2'', 4)] \<and>
   lists example_heap 3 = None"
  using example_run by (simp add: example_heap_def example_result_def)

theorem cfCommon_rebinds_keys_witness:
  "\<exists>h' es'. cfCommon 2 example_heap = Inr (2, h') \<and> dicts h' 2 = Some es' \<and>
     map fst es' = [''cf1'', ''cf2''] \<and>
     lists h' 0 = Some [- 1000, 300, 400, - 500] \<and>
     lists h' 1 = Some [- 2000, 300, 400, 500, - 1400] \<and>
     (\<exists>a'. map_of es' ''cf1'' = Some a' \<and> 3 \<le> a' \<and>
        lists h' a' = Some [- 1000, 300, 400, - 500, 300, 400, - 500, 300, 400, - 500, 300, 400, 500])"
proof -
  have r1: "py_int (real_of_int 12 / real_of_int 3 - 1) = 3" by (simp add: py_int_def)
  have n3: "nat 3 = Suc (Suc (Suc 0))" by simp
  have f: "fresh example_heap = 3" "lists example_heap 0 = Some [- 1000, 300, 400, 500]"
    "lists example_heap (Suc 0) = Some [- 2000, 300, 400, 500, 600]"
    by (simp_all add: example_heap_def)
  have c: "common_series 12 3 [- 1000, 300, 400, 500] =
      [- 1000, 300, 400, - 500, 300, 400, - 500, 300, 400, - 500, 300, 400, 500]"
    by (simp add: common_series_def restore_last_def extend_def fold_last_def list_times_def py_int_def replicate_small)
  from cfCommon_rebinds_keys [OF example_in] obtain h' es' where
    1: "cfCommon 2 example_heap = Inr (2, h')" "dicts h' 2 = Some es'"
       "map fst es' = map fst [(''cf1'', 0 :: addr), (''cf2'', 1)]" and
    2: "\<forall>(k, a) \<in> set [(''cf1'', 0), (''cf2'', 1)]. \<exists>v a'.
        lists example_heap a = Some v \<and> lists h' a = Some (fold_last v) \<and>
        map_of es' k = Some a' \<and> fresh example_heap \<le> a' \<and>
        lists h' a' =
          Some (common_series (Lcm ((\<lambda>(k, v). int (length v) - 1) ` set (series example_heap 2)))
                  (int (length v) - 1) v)"
    by blast
  from 2 have "lists h' 0 = Some [- 1000, 300, 400, - 500]"
    "lists h' 1 = Some [- 2000, 300, 400, 500, - 1400]"
    "\<exists>a'. map_of es' ''cf1'' = Some a' \<and> 3 \<le> a' \<and>
        lists h' a' = Some [- 1000, 300, 400, - 500, 300, 400, - 500, 300, 400, - 500, 300, 400, 500]"
    by (simp_all add: f example_lcm fold_last_def c)
  with 1 show ?thesis by auto
qed

end
